theory Spec2Isabelle
  imports Main "HOL-Library.Sublist" "HOL-Library.AList"
begin

section \<open>JavaScript strings\<close>

text \<open>
  A string is the list of its UTF-16 code units (integers from 0 to 65535), as in
  JavaScript, so that \<open>length\<close>,
  \<open>substring\<close> and the white space of \<open>String.prototype.trim\<close> are those of the
  source. \<open>lit\<close> makes such a string from an ASCII literal of this text and \<open>cu\<close> a
  code unit from a character. A file holds its text, that is its content decoded as
  UTF-8.
\<close>

type_synonym codeunit = int

type_synonym jsstring = "codeunit list"

definition cu :: "char \<Rightarrow> codeunit" where
  "cu c = of_char c"

definition lit :: "string \<Rightarrow> jsstring" where
  "lit s = map cu s"

text \<open>
  The white space and line terminators of ECMAScript, which \<open>trim\<close> strips and the
  class \<open>\s\<close> of a regular expression matches: TAB, LF, VT, FF, CR, SPACE, U+00A0,
  U+1680, U+2000 to U+200A, U+2028, U+2029, U+202F, U+205F, U+3000 and U+FEFF.
\<close>

definition isSpace :: "codeunit \<Rightarrow> bool" where
  "isSpace c =
     (c \<in> set [0x09, 0x0A, 0x0B, 0x0C, 0x0D, 0x20, 0xA0, 0x1680, 0x2028, 0x2029, 0x202F,
               0x205F, 0x3000, 0xFEFF] \<or>
      (0x2000 \<le> c \<and> c \<le> 0x200A))"

definition trim :: "jsstring \<Rightarrow> jsstring" where
  "trim s = rev (dropWhile isSpace (rev (dropWhile isSpace s)))"

text \<open>
  The size in bytes of a text written as UTF-8: one to three bytes for a code unit, four
  for a surrogate pair.
\<close>

fun utf8Length :: "jsstring \<Rightarrow> nat" where
  "utf8Length [] = 0"
| "utf8Length [c] = (if c < 0x80 then 1 else if c < 0x800 then 2 else 3)"
| "utf8Length (c # d # cs) =
     (if c < 0x80 then 1 + utf8Length (d # cs)
      else if c < 0x800 then 2 + utf8Length (d # cs)
      else if 0xD800 \<le> c \<and> c < 0xDC00 \<and> 0xDC00 \<le> d \<and> d < 0xE000 then 4 + utf8Length cs
      else 3 + utf8Length (d # cs))"

text \<open>\<open>s.includes(t)\<close>, \<open>s.startsWith(t)\<close> and \<open>s.endsWith(t)\<close>.\<close>

definition str_includes :: "jsstring \<Rightarrow> jsstring \<Rightarrow> bool" where
  "str_includes s t = sublist t s"

definition startsWith :: "jsstring \<Rightarrow> jsstring \<Rightarrow> bool" where
  "startsWith s t = prefix t s"

definition endsWith :: "jsstring \<Rightarrow> jsstring \<Rightarrow> bool" where
  "endsWith s t = suffix t s"


section \<open>The state store\<close>

text \<open>
  \<open>ManagerState\<close> is the document of \<open>state.json\<close>: the pinned ids, most recently
  pinned first, and the remarks, an object keyed by session id (an association list in
  the object's property order). \<open>StateStore\<close> is the class of that name: its in-memory
  \<open>state\<close>, its \<open>loaded\<close> flag and the state file on disk. The file is \<open>Missing\<close>,
  \<open>Unreadable\<close> (reading or \<open>JSON.parse\<close> throws) or a \<open>Document\<close> holding the two
  fields as \<open>load\<close> reads them. \<open>writes\<close> counts the calls of \<open>fs.writeFile\<close> on the
  state file, so that "no disk write" is a statement about the store.
\<close>

record ManagerState =
  pinned :: "jsstring list"
  remarks :: "(jsstring \<times> jsstring) list"

definition DEFAULT_STATE :: ManagerState where
  "DEFAULT_STATE = \<lparr>pinned = [], remarks = []\<rparr>"

datatype state_file = Missing | Unreadable | Document ManagerState

record StateStore =
  state :: ManagerState
  loaded :: bool
  disk :: state_file
  writes :: nat

definition persist :: "StateStore \<Rightarrow> StateStore" where
  "persist S = S\<lparr>disk := Document (state S), writes := Suc (writes S)\<rparr>"

definition load :: "StateStore \<Rightarrow> StateStore" where
  "load S =
     (if loaded S then S
      else (case disk S of
              Missing \<Rightarrow> persist S
            | Document d \<Rightarrow> S\<lparr>state := d\<rparr>
            | Unreadable \<Rightarrow> S\<lparr>state := DEFAULT_STATE\<rparr>)\<lparr>loaded := True\<rparr>)"


definition unpin :: "jsstring \<Rightarrow> StateStore \<Rightarrow> StateStore" where
  "unpin sessionId S0 =
     (let S = load S0;
          next = filter (\<lambda>i. i \<noteq> sessionId) (pinned (state S))
      in if length next \<noteq> length (pinned (state S))
         then persist (S\<lparr>state := (state S)\<lparr>pinned := next\<rparr>\<rparr>)
         else S)"

definition isPinned :: "jsstring \<Rightarrow> StateStore \<Rightarrow> bool \<times> StateStore" where
  "isPinned sessionId S0 = (let S = load S0 in (sessionId \<in> set (pinned (state S)), S))"


definition setRemark :: "jsstring \<Rightarrow> jsstring \<Rightarrow> StateStore \<Rightarrow> StateStore" where
  "setRemark sessionId remark S0 =
     (let S = load S0;
          next = trim remark
      in if map_of (remarks (state S)) sessionId = Some next then S
         else persist (S\<lparr>state := (state S)\<lparr>remarks :=
                (if next \<noteq> [] then AList.update sessionId next (remarks (state S))
                 else AList.delete sessionId (remarks (state S)))\<rparr>\<rparr>))"

definition getRemark :: "jsstring \<Rightarrow> StateStore \<Rightarrow> jsstring \<times> StateStore" where
  "getRemark sessionId S0 =
     (let S = load S0
      in (case map_of (remarks (state S)) sessionId of Some r \<Rightarrow> r | None \<Rightarrow> [], S))"


section \<open>JSON values\<close>

text \<open>
  The values \<open>JSON.parse\<close> returns. Numbers are integers (time stamps, counts); an
  object lists its members with distinct keys, as a JavaScript object holds them.
  What the runtime does to text and values is not written out here: \<open>JSON.parse\<close>,
  \<open>JSON.stringify\<close>, \<open>new Date(s).getTime()\<close>, \<open>s.toLowerCase()\<close>, and the conversions
  \<open>String(v)\<close> and \<open>Number(v)\<close> of a value that is not a primitive, are the fields of
  \<open>env\<close>, and every result below holds for any such functions. \<open>None\<close> from
  \<open>JSON_parse\<close> is the \<open>SyntaxError\<close>, \<open>None\<close> from \<open>Date_getTime\<close> or \<open>Number_of\<close> is
  \<open>NaN\<close>, \<open>None\<close> from \<open>String_of\<close> is the \<open>TypeError\<close> of a value that cannot be
  converted.
\<close>

datatype json =
    JNull
  | JBool bool
  | JNum int
  | JStr jsstring
  | JArr "json list"
  | JObj "(jsstring \<times> json) list"

text \<open>A property read \<open>v.k\<close> on a value that is not \<open>null\<close>; \<open>None\<close> is \<open>undefined\<close>.\<close>

fun get :: "json \<Rightarrow> jsstring \<Rightarrow> json option" where
  "get (JObj kv) k = map_of kv k"
| "get _ k = None"

text \<open>Truthiness of a value that may be \<open>undefined\<close>.\<close>

fun truthy :: "json option \<Rightarrow> bool" where
  "truthy None = False"
| "truthy (Some JNull) = False"
| "truthy (Some (JBool b)) = b"
| "truthy (Some (JNum n)) = (n \<noteq> 0)"
| "truthy (Some (JStr s)) = (s \<noteq> [])"
| "truthy (Some (JArr xs)) = True"
| "truthy (Some (JObj kv)) = True"

section \<open>Paths and the file system\<close>

text \<open>
  A path is the list of its components below the root (POSIX). \<open>path_join\<close> is
  \<open>path.join\<close> on an absolute base: it appends the segments and normalises, so that
  \<open>..\<close> removes the component before it. \<open>path_relative\<close> is \<open>path.relative\<close>.
\<close>

type_synonym path = "jsstring list"

definition joinStep :: "path \<Rightarrow> jsstring \<Rightarrow> path" where
  "joinStep p c =
     (if c = lit ''..'' then butlast p
      else if c = lit ''.'' \<or> c = [] then p
      else p @ [c])"

definition path_join :: "path \<Rightarrow> jsstring list \<Rightarrow> path" where
  "path_join base segs = foldl joinStep base segs"

definition path_dirname :: "path \<Rightarrow> path" where
  "path_dirname p = butlast p"

definition path_basename :: "path \<Rightarrow> jsstring" where
  "path_basename p = (if p = [] then [] else last p)"

fun path_relative :: "path \<Rightarrow> path \<Rightarrow> jsstring list" where
  "path_relative (a # as) (b # bs) =
     (if a = b then path_relative as bs
      else replicate (length (a # as)) (lit ''..'') @ (b # bs))"
| "path_relative from to = replicate (length from) (lit ''..'') @ to"

definition path_string :: "path \<Rightarrow> jsstring" where
  "path_string p = concat (map (\<lambda>c. lit ''/'' @ c) p)"

text \<open>\<open>file + '.tmp'\<close>: a suffix on the last component.\<close>

definition path_suffix :: "path \<Rightarrow> jsstring \<Rightarrow> path" where
  "path_suffix p s = butlast p @ [path_basename p @ s]"

record ManagerPaths =
  codexHome :: path
  historyFile :: path
  sessionsDir :: path
  managerHome :: path
  stateFile :: path
  trashDir :: path

text \<open>
  \<open>buildPaths\<close> with both homes given (the defaults are \<open>~/.codex\<close> and
  \<open>~/.codex-history\<close>).
\<close>

definition buildPaths :: "path \<Rightarrow> path \<Rightarrow> ManagerPaths" where
  "buildPaths customCodexHome customManagerHome =
     \<lparr>codexHome = customCodexHome,
      historyFile = path_join customCodexHome [lit ''history.jsonl''],
      sessionsDir = path_join customCodexHome [lit ''sessions''],
      managerHome = customManagerHome,
      stateFile = path_join customManagerHome [lit ''state.json''],
      trashDir = path_join customManagerHome [lit ''trash'']\<rparr>"

text \<open>
  The world the manager works on: the regular files (path and content, in the order a
  directory scan lists them), the directories created so far, and the state store
  (which owns \<open>state.json\<close>; that file is not in the table). A directory exists when it
  was created or a file lies below it.
\<close>

record world =
  files :: "(path \<times> jsstring) list"
  dirs :: "path list"
  store :: StateStore

definition pathExists :: "world \<Rightarrow> path \<Rightarrow> bool" where
  "pathExists W p =
     (p \<in> set (map fst (files W)) \<or> p \<in> set (dirs W) \<or>
      list_ex (\<lambda>q. strict_prefix p q) (map fst (files W) @ dirs W))"

definition readFile :: "world \<Rightarrow> path \<Rightarrow> jsstring option" where
  "readFile W p = map_of (files W) p"

definition writeFile :: "path \<Rightarrow> jsstring \<Rightarrow> world \<Rightarrow> world" where
  "writeFile p content W = W\<lparr>files := AList.update p content (files W)\<rparr>"

definition appendFile :: "path \<Rightarrow> jsstring \<Rightarrow> world \<Rightarrow> world" where
  "appendFile p content W =
     writeFile p ((case readFile W p of Some old \<Rightarrow> old | None \<Rightarrow> []) @ content) W"

definition ensureDir :: "path \<Rightarrow> world \<Rightarrow> world" where
  "ensureDir d W = W\<lparr>dirs := dirs W @ [d]\<rparr>"

text \<open>\<open>fs.copyFile\<close> and \<open>fs.copy\<close> with overwrite, and \<open>fs.move\<close> with overwrite, on a file.\<close>

definition copyFile :: "path \<Rightarrow> path \<Rightarrow> world \<Rightarrow> world" where
  "copyFile src dest W =
     (case readFile W src of Some c \<Rightarrow> writeFile dest c W | None \<Rightarrow> W)"

definition move :: "path \<Rightarrow> path \<Rightarrow> world \<Rightarrow> world" where
  "move src dest W =
     (case readFile W src of
        Some c \<Rightarrow> W\<lparr>files := AList.update dest c (AList.delete src (files W))\<rparr>
      | None \<Rightarrow> W)"

text \<open>
  \<open>fast-glob\<close> with the pattern \<open>**/*SUFFIX\<close> below \<open>cwd\<close>, absolute paths: the files
  strictly below \<open>cwd\<close> whose name ends with the suffix, no component of the relative
  path starting with a dot (the library's default \<open>dot: false\<close>), and none of the
  \<open>ignore\<close>d directory names on the way.
\<close>

definition fg :: "world \<Rightarrow> path \<Rightarrow> jsstring \<Rightarrow> jsstring list \<Rightarrow> path list" where
  "fg W cwd suffix_pat ignore =
     filter (\<lambda>p. strict_prefix cwd p \<and>
                 list_all (\<lambda>c. \<not> startsWith c (lit ''.'')) (drop (length cwd) p) \<and>
                 list_all (\<lambda>c. c \<notin> set ignore) (butlast (drop (length cwd) p)) \<and>
                 endsWith (path_basename p) suffix_pat)
       (map fst (files W))"

section \<open>The history log\<close>

record env =
  JSON_parse :: "jsstring \<Rightarrow> json option"
  JSON_stringify :: "json \<Rightarrow> jsstring"
  Date_getTime :: "jsstring \<Rightarrow> int option"
  toLowerCase :: "jsstring \<Rightarrow> jsstring"
  String_of :: "json \<Rightarrow> jsstring option"
  Number_of :: "json \<Rightarrow> int option"

datatype error = TypeError | SessionFileNotFound | AlreadyArchived | NotArchived

definition LF :: codeunit where
  "LF = 0x0A"

definition CR :: codeunit where
  "CR = 0x0D"

text \<open>\<open>content.split(/\r?\n/)\<close>: the pieces between line feeds, one carriage return before a line feed belonging to the separator.\<close>

fun splitLines :: "jsstring \<Rightarrow> jsstring \<Rightarrow> jsstring list" where
  "splitLines cur [] = [cur]"
| "splitLines cur (c # cs) =
     (if c = LF
      then (if cur \<noteq> [] \<and> last cur = CR then butlast cur else cur) # splitLines [] cs
      else splitLines (cur @ [c]) cs)"

text \<open>
  The lines \<open>readline\<close> yields with \<open>crlfDelay: Infinity\<close>: a line ends at LF, CR LF or
  CR, and a last line without terminator is yielded when it is not empty.
\<close>

fun readlineLines :: "bool \<Rightarrow> jsstring \<Rightarrow> jsstring \<Rightarrow> jsstring list" where
  "readlineLines afterCR cur [] = (if cur = [] then [] else [cur])"
| "readlineLines afterCR cur (c # cs) =
     (if c = LF then (if afterCR then readlineLines False cur cs
                      else cur # readlineLines False [] cs)
      else if c = CR then cur # readlineLines True [] cs
      else readlineLines False (cur @ [c]) cs)"

text \<open>\<open>a || d\<close> on an optional string.\<close>

definition strOr :: "jsstring option \<Rightarrow> jsstring \<Rightarrow> jsstring" where
  "strOr a d = (case a of Some s \<Rightarrow> (if s \<noteq> [] then s else d) | None \<Rightarrow> d)"

text \<open>
  \<open>isAgentsText\<close> on a string (the same text in both builds). The three phrases that
  are not ASCII are given by their code units.
\<close>

definition isAgentsText :: "env \<Rightarrow> jsstring \<Rightarrow> bool" where
  "isAgentsText E text0 =
     (if text0 = [] then False
      else (let normalized = toLowerCase E text0 in
        str_includes normalized (lit ''agents.md'') \<or>
        str_includes normalized [0x7CFB, 0x7EDF, 0x63D0, 0x793A, 0x8BCD] \<or>
        str_includes normalized
          [0x4F60, 0x662F, 0x4E00, 0x4E2A, 0x8D44, 0x6DF1, 0x5168, 0x6808, 0x6280, 0x672F,
           0x4E13, 0x5BB6] \<or>
        startsWith normalized (lit ''<instructions>'') \<or>
        str_includes normalized (lit ''mcp '' @ [0x8C03, 0x7528, 0x89C4, 0x5219])))"

text \<open>\<open>a || b || c || ''\<close> on values that may be \<open>undefined\<close>.\<close>

fun firstTruthy :: "json option list \<Rightarrow> json" where
  "firstTruthy [] = JStr []"
| "firstTruthy (None # vs) = firstTruthy vs"
| "firstTruthy (Some v # vs) = (if truthy (Some v) then v else firstTruthy vs)"

text \<open>
  One turn of the loop of \<open>readHistoryLines\<close> in the extension core: the object pushed,
  or \<open>None\<close> when the line is passed over. A line that does not parse is ignored; so is
  the value \<open>null\<close>, whose property read throws inside the \<open>try\<close>, and so is any line on
  which \<open>String\<close> or \<open>toLowerCase\<close> throws. A \<open>text\<close> that is present and not a string
  is replaced by \<open>String(obj.text || '')\<close>. With \<open>hideAgents\<close>, \<open>isAgentsText\<close> is
  called on \<open>obj.text || obj.last_text || obj.first_text || ''\<close>; on a value that is
  not a string its \<open>toLowerCase\<close> is not a function.
\<close>

definition normalizeText :: "env \<Rightarrow> json \<Rightarrow> json option" where
  "normalizeText E obj =
     (case obj of
        JObj kv \<Rightarrow>
          (case map_of kv (lit ''text'') of
             None \<Rightarrow> Some obj
           | Some (JStr s) \<Rightarrow> Some obj
           | Some v \<Rightarrow>
               (if truthy (Some v)
                then map_option (\<lambda>s. JObj (AList.update (lit ''text'') (JStr s) kv)) (String_of E v)
                else Some (JObj (AList.update (lit ''text'') (JStr []) kv))))
      | _ \<Rightarrow> Some obj)"

definition readLine :: "env \<Rightarrow> bool \<Rightarrow> jsstring \<Rightarrow> json option" where
  "readLine E hideAgents line =
     (case JSON_parse E line of
        None \<Rightarrow> None
      | Some JNull \<Rightarrow> None
      | Some obj0 \<Rightarrow>
          (if truthy (get obj0 (lit ''session_id'')) \<and> truthy (get obj0 (lit ''ts'')) \<and>
              (get obj0 (lit ''text'') \<noteq> None \<or> get obj0 (lit ''first_text'') \<noteq> None \<or>
               get obj0 (lit ''last_text'') \<noteq> None)
           then (case normalizeText E obj0 of
                   None \<Rightarrow> None
                 | Some obj \<Rightarrow>
                     (let checkText = firstTruthy [get obj (lit ''text''), get obj (lit ''last_text''),
                                                   get obj (lit ''first_text'')]
                      in if hideAgents
                         then (case checkText of
                                 JStr s \<Rightarrow> (if isAgentsText E s then None else Some obj)
                               | _ \<Rightarrow> None)
                         else Some obj))
           else None))"

definition readHistoryLines :: "env \<Rightarrow> ManagerPaths \<Rightarrow> bool \<Rightarrow> world \<Rightarrow> json list" where
  "readHistoryLines E P hideAgents W =
     (case readFile W (historyFile P) of
        None \<Rightarrow> []
      | Some content \<Rightarrow>
          List.map_filter (readLine E hideAgents)
            (filter (\<lambda>l. l \<noteq> []) (splitLines [] content)))"



text \<open>
  \<open>HistoryLine\<close> is the interface of that name; the deprecated member \<open>text\<close> is the
  field \<open>line_text\<close>. \<open>JSON.parse(line) as HistoryLine\<close> is a cast that nothing
  checks. \<open>asHistoryLine\<close> is the typed view of an object: it is defined when every
  member has the type the interface declares or is absent. The query engine below is
  written for lines that have this view; for a log with a line that has none it gives
  no list (\<open>None\<close>), where the source goes on with the conversions of JavaScript.
\<close>

record HistoryLine =
  session_id :: jsstring
  ts :: int
  line_text :: "jsstring option"
  first_text :: "jsstring option"
  last_text :: "jsstring option"
  turn_count :: "int option"
  is_archived :: "bool option"






section \<open>Deleting sessions\<close>

text \<open>
  \<open>sessionIds.has(obj.session_id)\<close> on a parsed value that is not \<open>null\<close>: the set
  holds strings, so only a string member can be in it.
\<close>

definition hasSessionId :: "jsstring list \<Rightarrow> json \<Rightarrow> bool" where
  "hasSessionId sessionIds obj =
     (case get obj (lit ''session_id'') of Some (JStr s) \<Rightarrow> s \<in> set sessionIds | _ \<Rightarrow> False)"

text \<open>
  The loop of \<open>rewriteHistoryExcluding\<close> (the same text in both builds), with the
  counter \<open>removed\<close> and the text written to the temporary file so far. A line that
  parses to \<open>null\<close> makes \<open>obj.session_id\<close> throw: the loop stops with the error.
\<close>

fun rewriteLoop ::
  "env \<Rightarrow> jsstring list \<Rightarrow> nat \<Rightarrow> jsstring \<Rightarrow> jsstring list \<Rightarrow> error option \<times> nat \<times> jsstring" where
  "rewriteLoop E sessionIds removed output [] = (None, removed, output)"
| "rewriteLoop E sessionIds removed output (line # rest) =
     (let trimmed = trim line in
      if trimmed = [] then rewriteLoop E sessionIds removed output rest
      else (case JSON_parse E trimmed of
              None \<Rightarrow> rewriteLoop E sessionIds removed (output @ line @ [LF]) rest
            | Some JNull \<Rightarrow> (Some TypeError, removed, output)
            | Some obj \<Rightarrow>
                (if hasSessionId sessionIds obj
                 then rewriteLoop E sessionIds (removed + 1) output rest
                 else rewriteLoop E sessionIds removed (output @ line @ [LF]) rest)))"

definition rewriteHistoryExcluding ::
  "env \<Rightarrow> ManagerPaths \<Rightarrow> jsstring list \<Rightarrow> bool \<Rightarrow> world \<Rightarrow> (error + nat) \<times> world" where
  "rewriteHistoryExcluding E P sessionIds backupHistory W =
     (let file = historyFile P in
      case readFile W file of
        None \<Rightarrow> (Inr 0, W)
      | Some content \<Rightarrow>
          (let tempFile = path_suffix file (lit ''.tmp'');
               backupFile = path_suffix file (lit ''.bak'');
               (err, removed, output) =
                  rewriteLoop E sessionIds 0 [] (readlineLines False [] content);
               W1 = writeFile tempFile output W
           in case err of
                Some e \<Rightarrow> (Inl e, W1)
              | None \<Rightarrow>
                  (let W2 = (if backupHistory then copyFile file backupFile W1 else W1)
                   in (Inr removed, move tempFile file W2))))"

text \<open>
  \<open>findSessionFile\<close> of the extension core. \<open>searchInDirectory\<close> takes the first match
  of the glob \<open>**/*ID.jsonl\<close>, and failing that the first file at most five directories
  down whose name includes the id and ends with \<open>.jsonl\<close>. The sessions directory is
  searched first, then \<open>archived_sessions\<close> beside it; a file found only in the trash is
  reported as not found.
\<close>

definition findFileRecursive :: "world \<Rightarrow> path \<Rightarrow> jsstring \<Rightarrow> path option" where
  "findFileRecursive W baseDir sessionId =
     List.find (\<lambda>p. strict_prefix baseDir p \<and> length p \<le> length baseDir + 6 \<and>
                    str_includes (path_basename p) sessionId \<and>
                    endsWith (path_basename p) (lit ''.jsonl''))
       (map fst (files W))"

definition searchInDirectory :: "world \<Rightarrow> path \<Rightarrow> jsstring \<Rightarrow> path option" where
  "searchInDirectory W baseDir sessionId =
     (case fg W baseDir (sessionId @ lit ''.jsonl'') [] of
        m # ms \<Rightarrow> Some m
      | [] \<Rightarrow> findFileRecursive W baseDir sessionId)"

definition archivedSessionsDir :: "ManagerPaths \<Rightarrow> path" where
  "archivedSessionsDir P = path_join (path_dirname (sessionsDir P)) [lit ''archived_sessions'']"

definition findSessionFile :: "ManagerPaths \<Rightarrow> world \<Rightarrow> jsstring \<Rightarrow> path option" where
  "findSessionFile P W sessionId =
     (case searchInDirectory W (sessionsDir P) sessionId of
        Some sessionPath \<Rightarrow> Some sessionPath
      | None \<Rightarrow>
          (if pathExists W (archivedSessionsDir P)
           then searchInDirectory W (archivedSessionsDir P) sessionId
           else None))"

text \<open>\<open>findSessionFile\<close> of the CLI build: the glob below the sessions directory only.\<close>

definition findSessionFile_cli :: "ManagerPaths \<Rightarrow> world \<Rightarrow> jsstring \<Rightarrow> path option" where
  "findSessionFile_cli P W sessionId =
     (case fg W (sessionsDir P) (sessionId @ lit ''.jsonl'') [] of
        m # ms \<Rightarrow> Some m
      | [] \<Rightarrow> None)"

text \<open>\<open>new Set(sessionIds)\<close> in iteration order: each id once, at its first position.\<close>

definition js_Set :: "jsstring list \<Rightarrow> jsstring list" where
  "js_Set xs = rev (remdups (rev xs))"

text \<open>Where a session file goes in the trash.\<close>

definition trashDest :: "ManagerPaths \<Rightarrow> path \<Rightarrow> path" where
  "trashDest P file =
     path_join (trashDir P) (lit ''sessions'' # path_relative (sessionsDir P) file)"

text \<open>
  Step 1 of \<open>deleteSessions\<close>, the loop over the id set, parametrised by the build's
  \<open>findSessionFile\<close>.
\<close>

fun moveToTrash ::
  "(world \<Rightarrow> jsstring \<Rightarrow> path option) \<Rightarrow> ManagerPaths \<Rightarrow> path list \<Rightarrow> jsstring list \<Rightarrow>
   jsstring list \<Rightarrow> world \<Rightarrow> path list \<times> jsstring list \<times> world" where
  "moveToTrash locate P removedFiles notFoundFiles [] W = (removedFiles, notFoundFiles, W)"
| "moveToTrash locate P removedFiles notFoundFiles (sessionId # rest) W =
     (case locate W sessionId of
        None \<Rightarrow> moveToTrash locate P removedFiles (notFoundFiles @ [sessionId]) rest W
      | Some file \<Rightarrow>
          (let dest = trashDest P file;
               W1 = ensureDir (path_dirname dest) W;
               W2 = move file dest W1
           in moveToTrash locate P (removedFiles @ [file]) notFoundFiles rest W2))"

record DeleteResult =
  removedHistory :: nat
  removedFiles :: "path list"
  notFoundFiles :: "jsstring list"

text \<open>
  \<open>deleteSessions\<close> of the extension core; \<open>backupHistory\<close> is the option, \<open>None\<close> when
  it is left out. The state store is not touched.
\<close>

definition deleteSessions ::
  "env \<Rightarrow> ManagerPaths \<Rightarrow> jsstring list \<Rightarrow> bool option \<Rightarrow> world \<Rightarrow>
   (error + DeleteResult) \<times> world" where
  "deleteSessions E P sessionIds backupHistory W =
     (let idSet = js_Set sessionIds;
          (removed, notFound, W1) = moveToTrash (findSessionFile P) P [] [] idSet W;
          (r, W2) = rewriteHistoryExcluding E P idSet (backupHistory \<noteq> Some False) W1
      in case r of
           Inl e \<Rightarrow> (Inl e, W2)
         | Inr n \<Rightarrow>
             (Inr \<lparr>removedHistory = n, removedFiles = removed, notFoundFiles = notFound\<rparr>, W2))"

text \<open>
  \<open>deleteSessions\<close> of the CLI build: after the rewrite it unpins every id and clears
  its remark.
\<close>

fun clearState :: "jsstring list \<Rightarrow> StateStore \<Rightarrow> StateStore" where
  "clearState [] S = S"
| "clearState (sessionId # rest) S = clearState rest (setRemark sessionId [] (unpin sessionId S))"

definition deleteSessions_cli ::
  "env \<Rightarrow> ManagerPaths \<Rightarrow> jsstring list \<Rightarrow> bool option \<Rightarrow> world \<Rightarrow>
   (error + DeleteResult) \<times> world" where
  "deleteSessions_cli E P sessionIds backupHistory W =
     (let idSet = js_Set sessionIds;
          (removed, notFound, W1) = moveToTrash (findSessionFile_cli P) P [] [] idSet W;
          (r, W2) = rewriteHistoryExcluding E P idSet (backupHistory \<noteq> Some False) W1
      in case r of
           Inl e \<Rightarrow> (Inl e, W2)
         | Inr n \<Rightarrow>
             (Inr \<lparr>removedHistory = n, removedFiles = removed, notFoundFiles = notFound\<rparr>,
              W2\<lparr>store := clearState idSet (store W2)\<rparr>))"

section \<open>The session indexer\<close>

text \<open>The placeholder of a session without user text: three Chinese characters in parentheses.\<close>

definition EMPTY_SESSION :: jsstring where
  "EMPTY_SESSION = lit ''('' @ [0x7A7A, 0x4F1A, 0x8BDD] @ lit '')''"

text \<open>
  \<open>s.replace(/X+/g, ' ')\<close> for a character class \<open>X\<close>: every maximal run of
  characters of the class becomes one space. The flag says that the previous character
  was of the class.
\<close>

fun collapseRuns :: "(codeunit \<Rightarrow> bool) \<Rightarrow> bool \<Rightarrow> jsstring \<Rightarrow> jsstring" where
  "collapseRuns isX inRun [] = []"
| "collapseRuns isX inRun (c # cs) =
     (if isX c then (if inRun then collapseRuns isX True cs
                     else cu (CHR '' '') # collapseRuns isX True cs)
      else c # collapseRuns isX False cs)"

definition cleanFirstText :: "jsstring \<Rightarrow> jsstring" where
  "cleanFirstText rawText =
     (if rawText = [] then []
      else (let cleaned = collapseRuns (\<lambda>c. c = CR \<or> c = LF) False rawText;
                trimmed = trim (collapseRuns isSpace False cleaned)
            in if length trimmed > 80 then take 80 trimmed @ lit ''...'' else trimmed))"

definition isSystemPrompt :: "env \<Rightarrow> jsstring \<Rightarrow> bool" where
  "isSystemPrompt E text0 =
     (let lower = toLowerCase E text0 in
      str_includes lower (lit ''you are in a project'') \<or>
      str_includes lower (lit ''agents.md'') \<or>
      str_includes lower (lit ''system:''))"

text \<open>
  \<open>s.match(/##\s*My request for Codex:\s*(.+)$/s)\<close>, the first group of the leftmost
  match. The group runs to the end of the input; when only whitespace follows the
  colon, the greedy \<open>\s*\<close> gives its last character back to the group.
\<close>

definition matchRequestHere :: "jsstring \<Rightarrow> jsstring option" where
  "matchRequestHere s =
     (if prefix (lit ''##'') s
      then (let r1 = dropWhile isSpace (drop 2 s) in
            if prefix (lit ''My request for Codex:'') r1
            then (let r2 = drop 21 r1;
                      ws = takeWhile isSpace r2;
                      rest = dropWhile isSpace r2
                  in if rest \<noteq> [] then Some rest
                     else if ws \<noteq> [] then Some [last ws]
                     else None)
            else None)
      else None)"

fun matchRequest :: "jsstring \<Rightarrow> jsstring option" where
  "matchRequest [] = None"
| "matchRequest (c # cs) =
     (case matchRequestHere (c # cs) of
        Some g \<Rightarrow> Some g
      | None \<Rightarrow> matchRequest cs)"

definition isDigit :: "codeunit \<Rightarrow> bool" where
  "isDigit c = (c \<in> set (lit ''0123456789''))"

text \<open>
  \<open>name.replace(/^rollout-[\d-T]+-/, '')\<close>: after \<open>rollout-\<close> the class takes digits,
  dashes and \<open>T\<close>; the match ends at the last dash of that run which is not its first
  character.
\<close>

definition stripRolloutPrefix :: "jsstring \<Rightarrow> jsstring" where
  "stripRolloutPrefix name =
     (if prefix (lit ''rollout-'') name
      then (let r = drop 8 name;
                run = takeWhile (\<lambda>c. isDigit c \<or> c = cu (CHR ''-'') \<or> c = cu (CHR ''T'')) r;
                after = dropWhile (\<lambda>c. isDigit c \<or> c = cu (CHR ''-'') \<or> c = cu (CHR ''T'')) r;
                tail = takeWhile (\<lambda>c. c \<noteq> cu (CHR ''-'')) (rev run)
            in if length tail + 1 < length run then rev tail @ after else name)
      else name)"

definition stripJsonlSuffix :: "jsstring \<Rightarrow> jsstring" where
  "stripJsonlSuffix name =
     (if suffix (lit ''.jsonl'') name then take (length name - 6) name else name)"

text \<open>
  The scan of \<open>parseSessionFile\<close> over the lines of a transcript: \<open>turnCount\<close>,
  \<open>firstText\<close>, \<open>lastText\<close>. A line that does not parse, or on which a property read or
  a string method throws, changes nothing (the \<open>catch\<close> is empty). \<open>optGet\<close> is
  \<open>v?.k\<close>.
\<close>

definition optGet :: "json option \<Rightarrow> jsstring \<Rightarrow> json option" where
  "optGet v k = (case v of None \<Rightarrow> None | Some JNull \<Rightarrow> None | Some w \<Rightarrow> get w k)"

definition scanLine :: "env \<Rightarrow> json \<Rightarrow> nat \<times> jsstring \<times> jsstring \<Rightarrow> nat \<times> jsstring \<times> jsstring" where
  "scanLine E parsed acc =
     (case acc of (turnCount, firstText0, lastText0) \<Rightarrow>
      (let payload = get parsed (lit ''payload'') in
       if get parsed (lit ''type'') = Some (JStr (lit ''event_msg'')) \<and>
          optGet payload (lit ''type'') = Some (JStr (lit ''user_message''))
       then (let message = optGet payload (lit ''message'') in
             if truthy message \<and> (case message of Some (JStr m) \<Rightarrow> False | _ \<Rightarrow> True)
             then acc
             else (let m = (case message of Some (JStr m) \<Rightarrow> m | _ \<Rightarrow> []);
                       extractedText = (case matchRequest m of Some g \<Rightarrow> trim g | None \<Rightarrow> trim m)
                   in if \<not> isSystemPrompt E extractedText
                      then (turnCount + 1,
                            (if firstText0 = [] then extractedText else firstText0), lastText0)
                      else acc))
       else if get parsed (lit ''type'') = Some (JStr (lit ''user_item''))
       then (case optGet payload (lit ''content'') of
               Some (JStr t) \<Rightarrow>
                 (if t \<noteq> [] \<and> \<not> isSystemPrompt E t
                  then (turnCount + 1, (if firstText0 = [] then t else firstText0), t)
                  else acc)
             | _ \<Rightarrow> acc)
       else if get parsed (lit ''type'') = Some (JStr (lit ''response_item'')) \<and>
               optGet payload (lit ''role'') = Some (JStr (lit ''user''))
       then (case optGet payload (lit ''content'') of
               Some (JArr (x # xs)) \<Rightarrow>
                 (case optGet (Some x) (lit ''text'') of
                    Some (JStr t) \<Rightarrow>
                      (if t = [] \<or> isSystemPrompt E t then acc
                       else (turnCount + 1,
                             (case matchRequest t of
                                Some g \<Rightarrow> (if firstText0 = [] then trim g else firstText0)
                              | None \<Rightarrow> firstText0),
                             lastText0))
                  | _ \<Rightarrow> acc)
             | _ \<Rightarrow> acc)
       else acc))"

definition scanLines :: "env \<Rightarrow> jsstring list \<Rightarrow> nat \<times> jsstring \<times> jsstring" where
  "scanLines E lines =
     foldl (\<lambda>acc lineStr.
              (case JSON_parse E lineStr of
                 None \<Rightarrow> acc
               | Some JNull \<Rightarrow> acc
               | Some parsed \<Rightarrow> scanLine E parsed acc))
       (0, [], []) lines"

text \<open>
  \<open>Number(v)\<close> on a value that may be \<open>undefined\<close>; \<open>isNaN(v)\<close> is \<open>toNumber E v = None\<close>.
  The conversion of a string, an array or an object is the runtime's.
\<close>

definition toNumber :: "env \<Rightarrow> json option \<Rightarrow> int option" where
  "toNumber E v =
     (case v of
        None \<Rightarrow> None
      | Some JNull \<Rightarrow> Some 0
      | Some (JBool b) \<Rightarrow> Some (if b then 1 else 0)
      | Some (JNum n) \<Rightarrow> Some n
      | Some w \<Rightarrow> Number_of E w)"

text \<open>
  \<open>parseSessionFile\<close>: the record of a transcript file, or \<open>None\<close> where the source
  returns \<open>null\<close> or throws (both callers pass such a file over). \<open>firstLine\<close> and
  \<open>lastLine\<close> are the first and the last line that parse. The time stamp is
  \<open>firstLine.timestamp || firstLine.id\<close>, read by \<open>Date\<close> when it is a string; the
  file is passed over when it is falsy or \<open>isNaN\<close> holds of it. The session id is
  \<open>firstLine.id\<close>, or comes from the file name when that is falsy. The record is the
  object literal the source returns, members in its order.
\<close>

definition parseSessionFile :: "env \<Rightarrow> world \<Rightarrow> path \<Rightarrow> json option" where
  "parseSessionFile E W file =
     (case readFile W file of
        None \<Rightarrow> None
      | Some content \<Rightarrow>
          (let lines = filter (\<lambda>l. l \<noteq> []) (splitLines [] content);
               parsedLines = List.map_filter (JSON_parse E) lines
           in if lines = [] \<or> parsedLines = [] then None
              else (let firstLine = hd parsedLines; lastLine = last parsedLines in
                if \<not> truthy (Some firstLine) \<or> \<not> truthy (Some lastLine) then None
                else (let tsv = (if truthy (get firstLine (lit ''timestamp''))
                                 then get firstLine (lit ''timestamp'') else get firstLine (lit ''id''));
                          timestamp = (case tsv of
                                         Some (JStr str) \<Rightarrow> map_option JNum (Date_getTime E str)
                                       | _ \<Rightarrow> tsv)
                      in case timestamp of
                           None \<Rightarrow> None
                         | Some tv \<Rightarrow>
                             (if \<not> truthy (Some tv) \<or> toNumber E (Some tv) = None then None
                              else (let fromName = stripJsonlSuffix (stripRolloutPrefix (path_basename file));
                                        sessionId0 =
                                          (case get firstLine (lit ''id'') of
                                             Some i \<Rightarrow> (if truthy (Some i) then i else JStr fromName)
                                           | None \<Rightarrow> JStr fromName);
                                        isArchived0 = str_includes (path_string file) (lit ''archived_sessions'');
                                        (turnCount, firstText0, lastText0) = scanLines E lines;
                                        cleanedFirstText =
                                          cleanFirstText (if firstText0 \<noteq> [] then firstText0 else EMPTY_SESSION)
                                    in Some (JObj
                                         [(lit ''session_id'', sessionId0),
                                          (lit ''ts'', tv),
                                          (lit ''first_text'', JStr cleanedFirstText),
                                          (lit ''last_text'', JStr (if lastText0 \<noteq> [] then lastText0
                                                                   else cleanedFirstText)),
                                          (lit ''turn_count'', JNum (int turnCount)),
                                          (lit ''is_archived'', JBool isArchived0)])))))))"

text \<open>
  \<open>Array.prototype.sort\<close> with a comparator: the sort is stable, so for a consistent
  comparator it is insertion from the right.
\<close>

fun insort_cmp :: "('a \<Rightarrow> 'a \<Rightarrow> int) \<Rightarrow> 'a \<Rightarrow> 'a list \<Rightarrow> 'a list" where
  "insort_cmp cmp x [] = [x]"
| "insort_cmp cmp x (y # ys) =
     (if cmp x y \<le> 0 then x # y # ys else y # insort_cmp cmp x ys)"

definition js_sort :: "('a \<Rightarrow> 'a \<Rightarrow> int) \<Rightarrow> 'a list \<Rightarrow> 'a list" where
  "js_sort cmp xs = foldr (insort_cmp cmp) xs []"

text \<open>The directories both scans read: the sessions directory, and \<open>archived_sessions\<close> when it exists.\<close>

definition dirsToScan :: "ManagerPaths \<Rightarrow> world \<Rightarrow> path list" where
  "dirsToScan P W =
     (let archivedDir = path_join (codexHome P) [lit ''archived_sessions'']
      in sessionsDir P # (if pathExists W archivedDir then [archivedDir] else []))"

text \<open>
  Steps 2 to 4 of \<open>rebuildIndex\<close>: the files found, and their records sorted with the
  comparator \<open>b.ts - a.ts\<close> (a difference that is \<open>NaN\<close> counts as zero).
\<close>

definition scannedFiles :: "ManagerPaths \<Rightarrow> world \<Rightarrow> path list" where
  "scannedFiles P W = concat (map (\<lambda>d. fg W d (lit ''.jsonl'') []) (dirsToScan P W))"

definition compareTs :: "env \<Rightarrow> json \<Rightarrow> json \<Rightarrow> int" where
  "compareTs E a b =
     (case (toNumber E (get b (lit ''ts'')), toNumber E (get a (lit ''ts''))) of
        (Some x, Some y) \<Rightarrow> x - y
      | _ \<Rightarrow> 0)"

definition scanSessions :: "env \<Rightarrow> ManagerPaths \<Rightarrow> world \<Rightarrow> json list" where
  "scanSessions E P W =
     (let newHistoryLines = List.map_filter (parseSessionFile E W) (scannedFiles P W)
      in js_sort (compareTs E) newHistoryLines)"

definition rebuildIndex :: "env \<Rightarrow> ManagerPaths \<Rightarrow> world \<Rightarrow> world" where
  "rebuildIndex E P W =
     (let W1 = (if pathExists W (historyFile P)
                then copyFile (historyFile P) (path_suffix (historyFile P) (lit ''.bak'')) W
                else W)
      in writeFile (historyFile P)
           (concat (map (\<lambda>l. JSON_stringify E l @ [LF]) (scanSessions E P W1))) W1)"

text \<open>
  \<open>name.match(/rollout-[\d-T]+-([a-f0-9-]+)\.jsonl/i)\<close>, the group of the leftmost
  match. After \<open>rollout-\<close> the first class gives back characters until a dash is
  followed by a non-empty run of hexadecimal digits and dashes and then \<open>.jsonl\<close>.
  With the flag \<open>i\<close> an ASCII letter of the pattern matches in either case, and no
  other character matches it.
\<close>

definition lowerAscii :: "codeunit \<Rightarrow> codeunit" where
  "lowerAscii c = (if cu (CHR ''A'') \<le> c \<and> c \<le> cu (CHR ''Z'') then c + 32 else c)"

definition isHexDash :: "codeunit \<Rightarrow> bool" where
  "isHexDash c = (c \<in> set (lit ''0123456789abcdefABCDEF-''))"

definition isStampChar :: "codeunit \<Rightarrow> bool" where
  "isStampChar c = (c \<in> set (lit ''0123456789-Tt''))"

fun tryDash :: "nat \<Rightarrow> jsstring \<Rightarrow> jsstring option" where
  "tryDash 0 r = None"
| "tryDash (Suc k) r =
     (let g = takeWhile isHexDash (drop (Suc (Suc k)) r);
          after = dropWhile isHexDash (drop (Suc (Suc k)) r)
      in if r ! (Suc k) = cu (CHR ''-'') \<and> g \<noteq> [] \<and> map lowerAscii (take 6 after) = lit ''.jsonl''
         then Some g
         else tryDash k r)"

definition matchRolloutHere :: "jsstring \<Rightarrow> jsstring option" where
  "matchRolloutHere s =
     (if map lowerAscii (take 8 s) = lit ''rollout-''
      then tryDash (length (takeWhile isStampChar (drop 8 s)) - 1) (drop 8 s)
      else None)"

fun matchRollout :: "jsstring \<Rightarrow> jsstring option" where
  "matchRollout [] = None"
| "matchRollout (c # cs) =
     (case matchRolloutHere (c # cs) of
        Some g \<Rightarrow> Some g
      | None \<Rightarrow> matchRollout cs)"

text \<open>
  \<open>checkForNewSessions\<close>: the number of sessions appended, and the world. The set
  \<open>indexedSessions\<close> holds the \<open>session_id\<close> members of the lines read back; the size
  of the log is the number of bytes of its text.
\<close>

definition checkForNewSessions :: "env \<Rightarrow> ManagerPaths \<Rightarrow> world \<Rightarrow> nat \<times> world" where
  "checkForNewSessions E P W =
     (let lines = readHistoryLines E P False W;
          indexedSessions = (if pathExists W (historyFile P)
                             then map (\<lambda>line. get line (lit ''session_id'')) lines else []);
          size = (case readFile W (historyFile P) of Some c \<Rightarrow> utf8Length c | None \<Rightarrow> 0)
      in if pathExists W (historyFile P) \<and> lines = [] \<and> 100 < size then (0, W)
         else (let allSessionFiles =
                     concat (map (\<lambda>d. fg W d (lit ''.jsonl'') [lit ''trash'', lit ''sessions_Recycle''])
                               (dirsToScan P W));
                   newSessions =
                     filter (\<lambda>file. case matchRollout (path_basename file) of
                                       Some sid \<Rightarrow> Some (JStr sid) \<notin> set indexedSessions
                                     | None \<Rightarrow> False) allSessionFiles
               in if newSessions = [] then (0, W)
                  else (let newHistoryLines = List.map_filter (parseSessionFile E W) newSessions
                        in if newHistoryLines = [] then (0, W)
                           else (length newHistoryLines,
                                 appendFile (historyFile P)
                                   (concat (map (\<lambda>l. JSON_stringify E l @ [LF]) newHistoryLines))
                                   W))))"

section \<open>Archiving\<close>

text \<open>
  \<open>name.match(/(\d{4})-(\d{2})-(\d{2})T/)\<close>: year, month and day of the leftmost
  match.
\<close>

definition matchDateHere :: "jsstring \<Rightarrow> (jsstring \<times> jsstring \<times> jsstring) option" where
  "matchDateHere s =
     (if 11 \<le> length s \<and> list_all isDigit (take 4 s) \<and> s ! 4 = cu (CHR ''-'') \<and>
         list_all isDigit (take 2 (drop 5 s)) \<and> s ! 7 = cu (CHR ''-'') \<and>
         list_all isDigit (take 2 (drop 8 s)) \<and> s ! 10 = cu (CHR ''T'')
      then Some (take 4 s, take 2 (drop 5 s), take 2 (drop 8 s))
      else None)"

fun matchDate :: "jsstring \<Rightarrow> (jsstring \<times> jsstring \<times> jsstring) option" where
  "matchDate [] = None"
| "matchDate (c # cs) =
     (case matchDateHere (c # cs) of
        Some d \<Rightarrow> Some d
      | None \<Rightarrow> matchDate cs)"

text \<open>
  \<open>archiveSession\<close> and \<open>unarchiveSession\<close>: the error thrown or a normal return, and
  the world after the call.
\<close>

definition archiveSession ::
  "env \<Rightarrow> ManagerPaths \<Rightarrow> jsstring \<Rightarrow> world \<Rightarrow> (error + unit) \<times> world" where
  "archiveSession E P sid W =
     (case findSessionFile P W sid of
        None \<Rightarrow> (Inl SessionFileNotFound, W)
      | Some file \<Rightarrow>
          (if str_includes (path_string file) (lit ''archived_sessions'') then (Inl AlreadyArchived, W)
           else (let archivesDir = path_join (path_dirname (sessionsDir P)) [lit ''archived_sessions''];
                     W1 = ensureDir archivesDir W;
                     destPath = path_join archivesDir [path_basename file];
                     W2 = move file destPath W1
                 in (Inr (), rebuildIndex E P W2))))"

definition unarchiveSession ::
  "env \<Rightarrow> ManagerPaths \<Rightarrow> jsstring \<Rightarrow> world \<Rightarrow> (error + unit) \<times> world" where
  "unarchiveSession E P sid W =
     (case findSessionFile P W sid of
        None \<Rightarrow> (Inl SessionFileNotFound, W)
      | Some file \<Rightarrow>
          (if \<not> str_includes (path_string file) (lit ''archived_sessions'') then (Inl NotArchived, W)
           else (let fileName = path_basename file;
                     (W1, destPath) =
                        (case matchDate fileName of
                           Some (year, month, day) \<Rightarrow>
                             (ensureDir (path_join (sessionsDir P) [year, month, day]) W,
                              path_join (path_join (sessionsDir P) [year, month, day]) [fileName])
                         | None \<Rightarrow> (W, path_join (sessionsDir P) [fileName]));
                     W2 = move file destPath W1
                 in (Inr (), rebuildIndex E P W2))))"

section \<open>The query engine\<close>

record SessionSummary =
  sessionId :: jsstring
  firstTs :: int
  lastTs :: int
  firstText :: jsstring
  lastText :: jsstring
  count :: int
  pinned :: bool
  remark :: "jsstring option"
  isArchived :: "bool option"

text \<open>
  The options of \<open>listSummaries\<close>: \<open>search\<close> and \<open>limit\<close> may be left out, \<open>onlyPinned\<close>
  left out reads as false, and \<open>hideAgents\<close> is the value of
  \<open>options.hideAgents !== false\<close>.
\<close>

record ListOptions =
  search :: "jsstring option"
  limit :: "int option"
  onlyPinned :: bool
  hideAgents :: bool


text \<open>\<open>line.text || line.last_text || ''\<close>, and the text cut to 200 characters.\<close>

definition lineText :: "HistoryLine \<Rightarrow> jsstring" where
  "lineText line = strOr (line_text line) (strOr (last_text line) [])"

definition truncatedText :: "HistoryLine \<Rightarrow> jsstring" where
  "truncatedText line =
     (if length (lineText line) > 200 then take 200 (lineText line) @ lit ''...''
      else lineText line)"


definition remarkOf :: "(jsstring \<times> jsstring) list \<Rightarrow> jsstring \<Rightarrow> jsstring option" where
  "remarkOf rmks sid =
     (case map_of rmks sid of Some r \<Rightarrow> (if r \<noteq> [] then Some r else None) | None \<Rightarrow> None)"

definition newSummary ::
  "jsstring set \<Rightarrow> (jsstring \<times> jsstring) list \<Rightarrow> HistoryLine \<Rightarrow> SessionSummary" where
  "newSummary pinnedSet rmks line =
     \<lparr>sessionId = session_id line,
      firstTs = ts line,
      lastTs = ts line,
      firstText = cleanFirstText (strOr (first_text line) (truncatedText line)),
      lastText = strOr (last_text line) (truncatedText line),
      count = (case turn_count line of Some n \<Rightarrow> (if n \<noteq> 0 then n else 1) | None \<Rightarrow> 1),
      pinned = (session_id line \<in> pinnedSet),
      remark = remarkOf rmks (session_id line),
      isArchived = is_archived line\<rparr>"

definition mergeLine ::
  "(jsstring \<times> jsstring) list \<Rightarrow> HistoryLine \<Rightarrow> SessionSummary \<Rightarrow> SessionSummary" where
  "mergeLine rmks line existing =
     (let newLastTs = max (lastTs existing) (ts line) in
      existing\<lparr>
        lastTs := newLastTs,
        firstTs := min (firstTs existing) (ts line),
        lastText := (if ts line \<ge> newLastTs then strOr (last_text line) (truncatedText line)
                     else lastText existing),
        firstText := (if strOr (first_text line) [] \<noteq> [] \<and>
                         (firstText existing = [] \<or> firstText existing = EMPTY_SESSION)
                      then cleanFirstText (strOr (first_text line) [])
                      else firstText existing),
        count := count existing + 1,
        remark := (if remark existing = None then remarkOf rmks (session_id line)
                   else remark existing),
        isArchived := (if is_archived line = Some True then Some True
                       else isArchived existing)\<rparr>)"





text \<open>
  \<open>listSummaries\<close> of the CLI build: the whole lowered search string is looked for in
  the line's \<open>text\<close>, and \<open>count\<close> counts lines.
\<close>

definition textOf :: "HistoryLine \<Rightarrow> jsstring" where
  "textOf line = (case line_text line of Some t \<Rightarrow> t | None \<Rightarrow> [])"


definition newSummary_cli ::
  "jsstring set \<Rightarrow> (jsstring \<times> jsstring) list \<Rightarrow> HistoryLine \<Rightarrow> SessionSummary" where
  "newSummary_cli pinnedSet rmks line =
     \<lparr>sessionId = session_id line, firstTs = ts line, lastTs = ts line,
      firstText = textOf line, lastText = textOf line, count = 1,
      pinned = (session_id line \<in> pinnedSet),
      remark = remarkOf rmks (session_id line), isArchived = None\<rparr>"

definition mergeLine_cli ::
  "(jsstring \<times> jsstring) list \<Rightarrow> HistoryLine \<Rightarrow> SessionSummary \<Rightarrow> SessionSummary" where
  "mergeLine_cli rmks line existing =
     existing\<lparr>lastTs := max (lastTs existing) (ts line),
               firstTs := min (firstTs existing) (ts line),
               lastText := textOf line,
               count := count existing + 1,
               remark := (if remark existing = None then remarkOf rmks (session_id line)
                          else remark existing)\<rparr>"



section \<open>Notions used in the statements\<close>

text \<open>
  How the rewrite loop sees a line of the log: \<open>lineTargets\<close>, it parses and carries a
  session id of the deletion set; \<open>malformed\<close>, it is not blank and does not parse;
  \<open>parsesNull\<close>, it parses to \<open>null\<close>; \<open>lineKept\<close>, it is not blank and not targeted.
\<close>

definition lineTargets :: "env \<Rightarrow> jsstring list \<Rightarrow> jsstring \<Rightarrow> bool" where
  "lineTargets E sessionIds line =
     (trim line \<noteq> [] \<and>
      (case JSON_parse E (trim line) of
         Some obj \<Rightarrow> hasSessionId sessionIds obj
       | None \<Rightarrow> False))"

definition lineKept :: "env \<Rightarrow> jsstring list \<Rightarrow> jsstring \<Rightarrow> bool" where
  "lineKept E sessionIds line = (trim line \<noteq> [] \<and> \<not> lineTargets E sessionIds line)"

definition parsesNull :: "env \<Rightarrow> jsstring \<Rightarrow> bool" where
  "parsesNull E line = (trim line \<noteq> [] \<and> JSON_parse E (trim line) = Some JNull)"


text \<open>
  A path is normal when no component is empty, \<open>.\<close> or \<open>..\<close>. \<open>srcTree\<close>: the path lies
  below the sessions directory or below \<open>archived_sessions\<close>. \<open>sourcesNormal\<close>: the files
  of those two trees have normal paths. \<open>separate\<close>: the trash directory is neither
  inside the Codex home nor above it (the default homes \<open>~/.codex\<close> and
  \<open>~/.codex-history\<close> are separate). \<open>namedFor\<close>: the name of the file contains the
  session id and ends with \<open>.jsonl\<close>, which is what both searches of \<open>findSessionFile\<close>
  ask of a file.
\<close>

definition normalPath :: "path \<Rightarrow> bool" where
  "normalPath p = list_all (\<lambda>c. c \<noteq> [] \<and> c \<noteq> lit ''.'' \<and> c \<noteq> lit ''..'') p"

definition srcTree :: "ManagerPaths \<Rightarrow> path \<Rightarrow> bool" where
  "srcTree P p = (strict_prefix (sessionsDir P) p \<or> strict_prefix (archivedSessionsDir P) p)"

definition sourcesNormal :: "ManagerPaths \<Rightarrow> world \<Rightarrow> bool" where
  "sourcesNormal P W = list_all (\<lambda>p. srcTree P p \<longrightarrow> normalPath p) (map fst (files W))"

definition separate :: "path \<Rightarrow> path \<Rightarrow> bool" where
  "separate c m = (\<not> prefix c (m @ [lit ''trash'']) \<and> \<not> prefix (m @ [lit ''trash'']) c)"

definition namedFor :: "jsstring \<Rightarrow> path \<Rightarrow> bool" where
  "namedFor sid f =
     (str_includes (path_basename f) sid \<and> endsWith (path_basename f) (lit ''.jsonl''))"

text \<open>
  What \<open>deleteSessions\<close> does to the files, stated for its result \<open>r\<close> and the worlds
  before and after it. \<open>movedToTrash\<close>: the file is gone from its place and stands, with
  the content it had, below the trash directory, at the same path relative to
  \<open>trash/sessions\<close> that it had relative to the sessions directory. \<open>filesDeleted\<close>: an
  id for which \<open>findSessionFile\<close> (here \<open>locate\<close>) finds nothing is reported in
  \<open>notFoundFiles\<close>; the file it finds is in \<open>removedFiles\<close>; and every file of
  \<open>removedFiles\<close> is named for an id of the set and was moved to the trash.
\<close>

definition movedToTrash :: "ManagerPaths \<Rightarrow> world \<Rightarrow> world \<Rightarrow> path \<Rightarrow> bool" where
  "movedToTrash P W W' f =
     (readFile W f \<noteq> None \<and> readFile W' f = None \<and>
      readFile W' (trashDest P f) = readFile W f \<and>
      prefix (trashDir P) (trashDest P f) \<and>
      path_relative (trashDir P @ [lit ''sessions'']) (trashDest P f) =
        path_relative (sessionsDir P) f)"

definition filesDeleted ::
  "(world \<Rightarrow> jsstring \<Rightarrow> path option) \<Rightarrow> ManagerPaths \<Rightarrow> jsstring list \<Rightarrow> world \<Rightarrow> world \<Rightarrow>
   DeleteResult \<Rightarrow> bool" where
  "filesDeleted locate P ids W W' r =
     (list_all (\<lambda>sid. case locate W sid of
                         None \<Rightarrow> sid \<in> set (notFoundFiles r)
                       | Some f \<Rightarrow> f \<in> set (removedFiles r)) ids \<and>
      list_all (\<lambda>f. list_ex (\<lambda>sid. namedFor sid f) ids \<and> movedToTrash P W W' f)
        (removedFiles r))"




definition keyed :: "jsstring set \<Rightarrow> (jsstring \<times> SessionSummary) list \<Rightarrow> bool" where
  "keyed ps acc =
     (distinct (map fst acc) \<and>
      (\<forall>(k, sm) \<in> set acc. sessionId sm = k \<and> pinned sm = (k \<in> ps)))"




text \<open>The store holds no empty remark (\<open>setRemark\<close> never stores one).\<close>

definition noEmptyRemarks :: "StateStore \<Rightarrow> bool" where
  "noEmptyRemarks S = list_all (\<lambda>kv. snd kv \<noteq> []) (remarks (state (load S)))"

text \<open>
  For the indexer. \<open>tsNumber\<close>: the number the comparator of \<open>rebuildIndex\<close> reads in a
  record. \<open>sameExcept h b\<close>: two worlds hold the same files, in the same order, and the
  same directories, the files \<open>h\<close> and \<open>b\<close> apart. \<open>inArchive\<close>: the test both
  \<open>archiveSession\<close> and \<open>unarchiveSession\<close> apply to the path of a file.
\<close>

definition tsNumber :: "env \<Rightarrow> json \<Rightarrow> int" where
  "tsNumber E l = (case toNumber E (get l (lit ''ts'')) of Some n \<Rightarrow> n | None \<Rightarrow> 0)"

definition sameExcept :: "path \<Rightarrow> path \<Rightarrow> world \<Rightarrow> world \<Rightarrow> bool" where
  "sameExcept h b W W' =
     (filter (\<lambda>p. p \<noteq> h \<and> p \<noteq> b) (map fst (files W')) =
      filter (\<lambda>p. p \<noteq> h \<and> p \<noteq> b) (map fst (files W)) \<and>
      (\<forall>p. p \<noteq> h \<and> p \<noteq> b \<longrightarrow> readFile W' p = readFile W p) \<and>
      dirs W' = dirs W)"

definition inArchive :: "path \<Rightarrow> bool" where
  "inArchive file = str_includes (path_string file) (lit ''archived_sessions'')"

section \<open>A sample installation\<close>

text \<open>
  Concrete data for the closed theorems below: a parser that knows a handful of log lines
  (written without the double quotes of JSON), the default layout of the two homes, a log of six lines
  and two transcript files.
\<close>

definition sampleParse :: "jsstring \<Rightarrow> json option" where
  "sampleParse s =
     map_of
       [(lit ''{session_id:A,ts:10,text:alpha}'',
           JObj [(lit ''session_id'', JStr (lit ''A'')), (lit ''ts'', JNum 10), (lit ''text'', JStr (lit ''alpha''))]),
        (lit ''{session_id:B,ts:20,text:beta}'',
           JObj [(lit ''session_id'', JStr (lit ''B'')), (lit ''ts'', JNum 20), (lit ''text'', JStr (lit ''beta''))]),
        (lit ''{session_id:C,ts:30,text:gamma}'',
           JObj [(lit ''session_id'', JStr (lit ''C'')), (lit ''ts'', JNum 30), (lit ''text'', JStr (lit ''gamma''))]),
        (lit ''{session_id:B,ts:40,text:delta}'',
           JObj [(lit ''session_id'', JStr (lit ''B'')), (lit ''ts'', JNum 40), (lit ''text'', JStr (lit ''delta''))]),
        (lit ''null'', JNull)] s"

text \<open>
  The other functions of the sample runtime: a \<open>stringify\<close> that shows the session id,
  the lowering of the ASCII letters (on ASCII text that is \<open>toLowerCase\<close>), and no
  conversion of dates and of values.
\<close>

definition sampleStringify :: "json \<Rightarrow> jsstring" where
  "sampleStringify l =
     lit ''{session_id:'' @
     (case get l (lit ''session_id'') of Some (JStr s) \<Rightarrow> s | _ \<Rightarrow> []) @ lit ''}''"

definition sampleEnv :: env where
  "sampleEnv = \<lparr>JSON_parse = sampleParse,
                JSON_stringify = sampleStringify,
                Date_getTime = (\<lambda>s. None),
                toLowerCase = map lowerAscii,
                String_of = (\<lambda>v. None),
                Number_of = (\<lambda>v. None)\<rparr>"

definition sampleCodexHome :: path where
  "sampleCodexHome = [lit ''home'', lit ''u'', lit ''.codex'']"

definition sampleManagerHome :: path where
  "sampleManagerHome = [lit ''home'', lit ''u'', lit ''.codex-history'']"

definition emptyStore :: StateStore where
  "emptyStore = \<lparr>state = DEFAULT_STATE, loaded = False, disk = Missing, writes = 0\<rparr>"

definition sampleLog :: jsstring where
  "sampleLog = lit ''{session_id:A,ts:10,text:alpha}'' @ [LF] @
               lit ''{session_id:B,ts:20,text:beta}'' @ [LF] @
               lit ''not json'' @ [LF] @
               lit ''   '' @ [LF] @
               lit ''{session_id:C,ts:30,text:gamma}'' @ [LF] @
               lit ''{session_id:B,ts:40,text:delta}'' @ [LF]"

definition sampleWorld :: world where
  "sampleWorld =
     \<lparr>files =
        [([lit ''home'', lit ''u'', lit ''.codex'', lit ''history.jsonl''], sampleLog),
         ([lit ''home'', lit ''u'', lit ''.codex'', lit ''sessions'', lit ''2025'', lit ''11'', lit ''10'',
           lit ''rollout-2025-11-10T21-20-20-B.jsonl''], lit ''transcript of B''),
         ([lit ''home'', lit ''u'', lit ''.codex'', lit ''archived_sessions'', lit ''rollout-2025-11-09T08-00-00-C.jsonl''],
          lit ''transcript of C'')],
      dirs = [],
      store = emptyStore\<rparr>"

definition pinnedStore :: StateStore where
  "pinnedStore =
     \<lparr>state = DEFAULT_STATE, loaded = False,
      disk = Document \<lparr>ManagerState.pinned = [lit ''B'', lit ''A''], remarks = [(lit ''A'', lit ''keep''), (lit ''B'', lit ''old'')]\<rparr>,
      writes = 0\<rparr>"



definition samplePaths :: ManagerPaths where
  "samplePaths = buildPaths sampleCodexHome sampleManagerHome"









definition transcriptT1 :: path where
  "transcriptT1 = sampleCodexHome @ [lit ''sessions'', lit ''2025'', lit ''11'', lit ''10'',
                                     lit ''rollout-2025-11-10T21-20-20-aaaa.jsonl'']"

definition transcriptEmpty :: path where
  "transcriptEmpty = sampleCodexHome @ [lit ''sessions'', lit ''2025'', lit ''11'', lit ''11'',
                                        lit ''rollout-2025-11-11T09-00-00-bbbb.jsonl'']"

definition indexWorld :: world where
  "indexWorld =
     \<lparr>files = [(transcriptT1, lit ''{id:T1,timestamp:77}'' @ [LF]), (transcriptEmpty, [])],
      dirs = [], store = emptyStore\<rparr>"

definition junkWorld :: world where
  "junkWorld = writeFile (historyFile samplePaths) (replicate 120 (cu (CHR ''#''))) indexWorld"

section \<open>Literals\<close>

lemma cu_eq_iff [simp]: "cu a = cu b \<longleftrightarrow> a = b"
  by (simp add: cu_def)

lemma lit_eq_iff [simp]: "lit a = lit b \<longleftrightarrow> a = b"
  unfolding lit_def by (simp add: inj_on_def inj_map_eq_map)

lemma lit_Nil [simp]: "lit [] = []"
  by (simp add: lit_def)

lemma lit_eq_Nil_iff [simp]: "lit s = [] \<longleftrightarrow> s = []"
  by (simp add: lit_def)

lemma Nil_eq_lit_iff [simp]: "[] = lit s \<longleftrightarrow> s = []"
  by (auto simp add: lit_def)

lemma length_lit [simp]: "length (lit s) = length s"
  by (simp add: lit_def)

section \<open>Properties of the state store\<close>

lemma load_loaded [simp]: "loaded S \<Longrightarrow> load S = S"
  by (simp add: load_def)

lemma loaded_load [simp]: "loaded (load S)"
  by (simp add: load_def persist_def split: state_file.splits)

lemma load_idem [simp]: "load (load S) = load S"
  by simp

lemma setRemark_unchanged:
  "map_of (remarks (state (load S))) sid = Some (trim rmk) \<Longrightarrow>
   setRemark sid rmk S = load S"
  by (simp add: setRemark_def Let_def)

lemma setRemark_stores_trimmed:
  "trim rmk \<noteq> [] \<Longrightarrow>
   map_of (remarks (state (setRemark sid rmk S))) sid = Some (trim rmk)"
  by (simp add: setRemark_def Let_def persist_def update_conv')

lemma setRemark_empty_deletes:
  "trim rmk = [] \<Longrightarrow>
   map_of (remarks (state (load S))) sid \<noteq> Some [] \<Longrightarrow>
   map_of (remarks (state (setRemark sid rmk S))) sid = None"
  by (simp add: setRemark_def Let_def persist_def delete_conv')

lemma setRemark_absent_writes:
  "map_of (remarks (state (load S))) sid = None \<Longrightarrow>
   writes (setRemark sid rmk S) = Suc (writes (load S))"
  by (simp add: setRemark_def Let_def persist_def)

text \<open>
  C9. \<open>setRemark\<close> skips the write only when the stored value is the trimmed text itself
  (\<open>this.state.remarks[sessionId] === next\<close>). An id with no remark reads as
  \<open>undefined\<close>, which is not the empty string: clearing the remark of such an id passes
  the test, deletes nothing and still calls \<open>persist\<close>. Here the store is loaded, holds
  no remark at all, and the call writes the state file once, with the document it
  already held.
\<close>

theorem setRemark_clear_without_remark_writes:
  "writes (setRemark (lit ''s1'') (lit ''  '')
      \<lparr>state = \<lparr>ManagerState.pinned = [lit ''s0''], remarks = []\<rparr>, loaded = True,
       disk = Document \<lparr>ManagerState.pinned = [lit ''s0''], remarks = []\<rparr>, writes = 0\<rparr>) = 1
   \<and> disk (setRemark (lit ''s1'') (lit ''  '')
      \<lparr>state = \<lparr>ManagerState.pinned = [lit ''s0''], remarks = []\<rparr>, loaded = True,
       disk = Document \<lparr>ManagerState.pinned = [lit ''s0''], remarks = []\<rparr>, writes = 0\<rparr>)
     = Document \<lparr>ManagerState.pinned = [lit ''s0''], remarks = []\<rparr>"
  by (simp add: setRemark_def Let_def persist_def trim_def isSpace_def lit_def cu_def)

section \<open>The log rewrite\<close>

lemma hasSessionId_JNull [simp]: "\<not> hasSessionId ids JNull"
  by (simp add: hasSessionId_def)

lemma rewriteLoop_ok:
  "\<not> list_ex (parsesNull E) lines \<Longrightarrow>
   rewriteLoop E ids removed out lines =
     (None, removed + length (filter (lineTargets E ids) lines),
      out @ concat (map (\<lambda>l. l @ [LF]) (filter (lineKept E ids) lines)))"
proof (induction lines arbitrary: removed out)
  case Nil
  then show ?case by simp
next
  case (Cons line rest)
  then have IH: "\<And>r out. rewriteLoop E ids r out rest =
     (None, r + length (filter (lineTargets E ids) rest),
      out @ concat (map (\<lambda>l. l @ [LF]) (filter (lineKept E ids) rest)))"
    by simp
  from Cons.prems have nn: "\<not> parsesNull E line" by simp
  show ?case
  proof (cases "trim line = []")
    case True
    then have "\<not> lineTargets E ids line" "\<not> lineKept E ids line"
      by (simp_all add: lineTargets_def lineKept_def)
    with True show ?thesis by (simp add: IH)
  next
    case False
    show ?thesis
    proof (cases "JSON_parse E (trim line)")
      case None
      with False have "\<not> lineTargets E ids line" "lineKept E ids line"
        by (simp_all add: lineTargets_def lineKept_def)
      with False None show ?thesis by (simp add: IH)
    next
      case (Some obj)
      with False nn have nnull: "obj \<noteq> JNull" by (auto simp: parsesNull_def)
      from False Some have t: "lineTargets E ids line = hasSessionId ids obj"
        and k: "lineKept E ids line = (\<not> hasSessionId ids obj)"
        by (simp_all add: lineTargets_def lineKept_def)
      from nnull False Some show ?thesis
        by (cases obj) (simp_all add: IH t k)
    qed
  qed
qed


lemma path_suffix_neq [simp]: "s \<noteq> [] \<Longrightarrow> path_suffix p s \<noteq> p"
  by (cases p rule: rev_cases) (auto simp: path_suffix_def path_basename_def)

lemma path_suffix_neq' [simp]: "s \<noteq> [] \<Longrightarrow> p \<noteq> path_suffix p s"
  using path_suffix_neq by metis

lemma path_suffix_inj [simp]: "path_suffix p s = path_suffix p t \<longleftrightarrow> s = t"
  by (auto simp: path_suffix_def)

lemma readFile_writeFile [simp]:
  "readFile (writeFile p c W) q = (if q = p then Some c else readFile W q)"
  by (simp add: readFile_def writeFile_def update_conv')

lemma readFile_copyFile:
  "readFile (copyFile src dest W) q =
     (if q = dest \<and> readFile W src \<noteq> None then readFile W src else readFile W q)"
  by (auto simp: copyFile_def split: option.splits)

lemma readFile_move:
  "readFile (move src dest W) q =
     (if readFile W src = None then readFile W q
      else if q = dest then readFile W src
      else if q = src then None else readFile W q)"
  by (auto simp: move_def readFile_def update_conv' delete_conv' split: option.splits)

lemma rewriteHistoryExcluding_ok:
  assumes "readFile W (historyFile P) = Some content"
      and "\<not> list_ex (parsesNull E) (readlineLines False [] content)"
  shows "fst (rewriteHistoryExcluding E P ids backup W) =
           Inr (length (filter (lineTargets E ids) (readlineLines False [] content)))"
    and "readFile (snd (rewriteHistoryExcluding E P ids backup W)) (historyFile P) =
           Some (concat (map (\<lambda>l. l @ [LF])
                   (filter (lineKept E ids) (readlineLines False [] content))))"
  using assms
  by (simp_all add: rewriteHistoryExcluding_def Let_def rewriteLoop_ok readFile_move readFile_copyFile)








section \<open>Paths\<close>

lemma path_join_normal: "normalPath segs \<Longrightarrow> path_join base segs = base @ segs"
  unfolding path_join_def normalPath_def
  by (induction segs arbitrary: base) (auto simp: joinStep_def)

lemma path_join_single [simp]:
  "c \<noteq> [] \<Longrightarrow> c \<noteq> lit ''.'' \<Longrightarrow> c \<noteq> lit ''..'' \<Longrightarrow> path_join base [c] = base @ [c]"
  by (simp add: path_join_def joinStep_def)

lemma buildPaths_simps [simp]:
  "sessionsDir (buildPaths c m) = c @ [lit ''sessions'']"
  "historyFile (buildPaths c m) = c @ [lit ''history.jsonl'']"
  "trashDir (buildPaths c m) = m @ [lit ''trash'']"
  "codexHome (buildPaths c m) = c"
  "managerHome (buildPaths c m) = m"
  "archivedSessionsDir (buildPaths c m) = c @ [lit ''archived_sessions'']"
  by (simp_all add: buildPaths_def archivedSessionsDir_def path_dirname_def)

lemma path_relative_append [simp]: "path_relative (xs @ as) (xs @ bs) = path_relative as bs"
  by (induction xs) auto

lemma path_relative_Nil [simp]: "path_relative [] bs = bs"
  by (cases bs) auto

lemma trashDest_sessions:
  "normalPath rel \<Longrightarrow>
   trashDest (buildPaths c m) (c @ lit ''sessions'' # rel) = m @ lit ''trash'' # lit ''sessions'' # rel"
proof -
  assume n: "normalPath rel"
  have "path_relative (c @ [lit ''sessions'']) (c @ lit ''sessions'' # rel) = rel"
    using path_relative_append[of "c @ [lit ''sessions'']" "[]" rel] by simp
  moreover have "normalPath (lit ''sessions'' # rel)" using n by (simp add: normalPath_def)
  ultimately show ?thesis
    by (simp add: trashDest_def path_join_normal)
qed

lemma trashDest_archived:
  "normalPath rel \<Longrightarrow>
   trashDest (buildPaths c m) (c @ lit ''archived_sessions'' # rel) = m @ lit ''trash'' # lit ''archived_sessions'' # rel"
proof -
  assume n: "normalPath rel"
  have "path_relative (c @ [lit ''sessions'']) (c @ lit ''archived_sessions'' # rel)
        = lit ''..'' # lit ''archived_sessions'' # rel"
    using path_relative_append[of c "[lit ''sessions'']" "lit ''archived_sessions'' # rel"] by simp
  moreover have "path_join (m @ [lit ''trash'']) (lit ''sessions'' # lit ''..'' # lit ''archived_sessions'' # rel)
     = path_join (m @ [lit ''trash'']) (lit ''archived_sessions'' # rel)"
    by (simp add: path_join_def joinStep_def butlast_append)
  moreover have "normalPath (lit ''archived_sessions'' # rel)" using n by (simp add: normalPath_def)
  ultimately show ?thesis
    by (simp add: trashDest_def path_join_normal)
qed

section \<open>Locating and moving session files\<close>

lemma readFile_keys: "readFile W p \<noteq> None \<longleftrightarrow> p \<in> set (map fst (files W))"
  by (simp add: readFile_def map_of_eq_None_iff)

lemma fg_sound:
  "p \<in> set (fg W cwd suf ign) \<Longrightarrow> readFile W p \<noteq> None \<and> strict_prefix cwd p"
  unfolding readFile_keys by (auto simp: fg_def)

lemma findFileRecursive_sound:
  "findFileRecursive W base sid = Some p \<Longrightarrow> readFile W p \<noteq> None \<and> strict_prefix base p"
  unfolding readFile_keys findFileRecursive_def
  by (auto simp: find_Some_iff)

lemma searchInDirectory_sound:
  "searchInDirectory W base sid = Some p \<Longrightarrow> readFile W p \<noteq> None \<and> strict_prefix base p"
  unfolding searchInDirectory_def
  using fg_sound[of p W base "sid @ lit ''.jsonl''" "[]"] findFileRecursive_sound[of W base sid p]
  by (auto split: list.splits)

lemma findSessionFile_sound:
  "findSessionFile P W sid = Some f \<Longrightarrow> readFile W f \<noteq> None \<and> srcTree P f"
  unfolding findSessionFile_def srcTree_def
  using searchInDirectory_sound[of W "sessionsDir P" sid f]
        searchInDirectory_sound[of W "archivedSessionsDir P" sid f]
  by (auto split: option.splits if_splits)

lemma findSessionFile_cli_sound:
  "findSessionFile_cli P W sid = Some f \<Longrightarrow> readFile W f \<noteq> None \<and> srcTree P f"
  unfolding findSessionFile_cli_def srcTree_def
  using fg_sound[of f W "sessionsDir P" "sid @ lit ''.jsonl''" "[]"]
  by (auto split: list.splits)

lemma separate_not_in_trash:
  assumes "separate c m" and "prefix (c @ [x]) p"
  shows "\<not> prefix (m @ [lit ''trash'']) p"
proof
  assume "prefix (m @ [lit ''trash'']) p"
  with assms(2) have "prefix (c @ [x]) (m @ [lit ''trash'']) \<or> prefix (m @ [lit ''trash'']) (c @ [x])"
    using prefix_same_cases by blast
  then show False
  proof
    assume "prefix (c @ [x]) (m @ [lit ''trash''])"
    then have "prefix c (m @ [lit ''trash''])" using append_prefixD by blast
    with assms(1) show False by (simp add: separate_def)
  next
    assume "prefix (m @ [lit ''trash'']) (c @ [x])"
    then have "prefix (m @ [lit ''trash'']) c \<or> m @ [lit ''trash''] = c @ [x]"
      by (auto simp add: prefix_snoc)
    with assms(1) show False by (auto simp: separate_def)
  qed
qed

lemma srcTree_form:
  assumes "srcTree (buildPaths c m) f"
  shows "\<exists>t rel. (t = lit ''sessions'' \<or> t = lit ''archived_sessions'') \<and> f = c @ t # rel \<and> rel \<noteq> []"
  using assms unfolding srcTree_def
  by (auto simp: strict_prefix_def prefix_def)

lemma normalPath_append [simp]: "normalPath (xs @ ys) = (normalPath xs \<and> normalPath ys)"
  by (simp add: normalPath_def)

lemma normalPath_Cons [simp]:
  "normalPath (x # xs) = (x \<noteq> [] \<and> x \<noteq> lit ''.'' \<and> x \<noteq> lit ''..'' \<and> normalPath xs)"
  by (auto simp add: normalPath_def)

lemma trashDest_src:
  assumes "srcTree (buildPaths c m) f" and "normalPath f"
  shows "\<exists>t rel. (t = lit ''sessions'' \<or> t = lit ''archived_sessions'') \<and> f = c @ t # rel \<and>
           trashDest (buildPaths c m) f = m @ lit ''trash'' # t # rel"
proof -
  from srcTree_form[OF assms(1)] obtain t rel where
    t: "t = lit ''sessions'' \<or> t = lit ''archived_sessions''" and f: "f = c @ t # rel" by blast
  from assms(2) f have "normalPath rel" by simp
  with t f show ?thesis
    using trashDest_sessions[of rel c m] trashDest_archived[of rel c m] by auto
qed

lemma trashDest_in_trash:
  assumes "srcTree (buildPaths c m) f" and "normalPath f"
  shows "prefix (m @ [lit ''trash'']) (trashDest (buildPaths c m) f)"
  using trashDest_src[OF assms] by (auto simp: prefix_def)

lemma trashDest_inj:
  assumes "srcTree (buildPaths c m) f" "normalPath f"
      and "srcTree (buildPaths c m) g" "normalPath g"
      and "trashDest (buildPaths c m) f = trashDest (buildPaths c m) g"
  shows "f = g"
  using trashDest_src[OF assms(1,2)] trashDest_src[OF assms(3,4)] assms(5) by auto

lemma srcTree_not_in_trash:
  assumes "separate c m" and "srcTree (buildPaths c m) f"
  shows "\<not> prefix (m @ [lit ''trash'']) f"
proof -
  from srcTree_form[OF assms(2)] obtain t rel where "f = c @ t # rel" by blast
  then have "prefix (c @ [t]) f" by (simp add: prefix_def)
  with assms(1) show ?thesis by (rule separate_not_in_trash)
qed

lemma moveToTrash_acc:
  "moveToTrash locate P rf nf ids W =
     (case moveToTrash locate P [] [] ids W of (R, N, W') \<Rightarrow> (rf @ R, nf @ N, W'))"
proof (induction ids arbitrary: rf nf W)
  case Nil
  then show ?case by simp
next
  case (Cons sid rest)
  show ?case
  proof (cases "locate W sid")
    case None
    then show ?thesis
      using Cons.IH[of rf "nf @ [sid]" W] Cons.IH[of "[]" "[sid]" W]
      by (simp split: prod.splits)
  next
    case (Some f)
    then show ?thesis
      using Cons.IH[of "rf @ [f]" nf] Cons.IH[of "[f]" "[]"]
      by (simp add: Let_def split: prod.splits)
  qed
qed

lemma readFile_ensureDir [simp]: "readFile (ensureDir d W) p = readFile W p"
  by (simp add: readFile_def ensureDir_def)

lemma files_ensureDir [simp]: "files (ensureDir d W) = files W"
  by (simp add: ensureDir_def)

lemma store_ensureDir [simp]: "store (ensureDir d W) = store W"
  by (simp add: ensureDir_def)

lemma store_move [simp]: "store (move a b W) = store W"
  by (simp add: move_def split: option.splits)

lemma store_writeFile [simp]: "store (writeFile a b W) = store W"
  by (simp add: writeFile_def)

lemma store_copyFile [simp]: "store (copyFile a b W) = store W"
  by (simp add: copyFile_def split: option.splits)

lemma keys_move:
  "set (map fst (files (move a b W))) \<subseteq> insert b (set (map fst (files W)))"
proof (cases "readFile W a")
  case None
  then show ?thesis by (auto simp: move_def)
next
  case (Some x)
  have "fst ` set (AList.update b x (AList.delete a (files W))) \<subseteq> insert b (fst ` set (files W))"
    using dom_delete_subset[of a "files W"] by (auto simp: dom_update)
  with Some show ?thesis by (simp add: move_def)
qed

lemma sourcesNormal_iff:
  "sourcesNormal P W \<longleftrightarrow> (\<forall>p \<in> set (map fst (files W)). srcTree P p \<longrightarrow> normalPath p)"
  by (simp add: sourcesNormal_def list_all_iff)

lemma moveToTrash_inv:
  assumes loc: "\<And>W sid f. locate W sid = Some f \<Longrightarrow> readFile W f \<noteq> None \<and> srcTree (buildPaths c m) f"
      and sep: "separate c m"
  shows "moveToTrash locate (buildPaths c m) [] [] ids W = (R, N, W') \<Longrightarrow> sourcesNormal (buildPaths c m) W \<Longrightarrow>
       (\<forall>f\<in>set R. srcTree (buildPaths c m) f \<and> normalPath f \<and> readFile W f \<noteq> None \<and> readFile W' f = None \<and>
                   readFile W' (trashDest (buildPaths c m) f) = readFile W f)
       \<and> (\<forall>p. p \<notin> set R \<and> p \<notin> trashDest (buildPaths c m) ` set R \<longrightarrow> readFile W' p = readFile W p)
       \<and> store W' = store W \<and> length R + length N = length ids"
proof (induction ids arbitrary: W R N W')
  case Nil
  then show ?case by simp
next
  case (Cons sid rest)
  show ?case
  proof (cases "locate W sid")
    case None
    obtain R2 N2 W2 where r2: "moveToTrash locate (buildPaths c m) [] [] rest W = (R2, N2, W2)"
      by (cases "moveToTrash locate (buildPaths c m) [] [] rest W") auto
    from Cons.prems(1) None r2 have eq: "R = R2" "N = sid # N2" "W' = W2"
      using moveToTrash_acc[of locate "buildPaths c m" "[]" "[sid]" rest W] by auto
    from Cons.IH[OF r2 Cons.prems(2)] eq show ?thesis by simp
  next
    case (Some f)
    define dest where "dest = trashDest (buildPaths c m) f"
    define W2 where "W2 = move f dest (ensureDir (path_dirname dest) W)"
    obtain R2 N2 W3 where r2: "moveToTrash locate (buildPaths c m) [] [] rest W2 = (R2, N2, W3)"
      by (cases "moveToTrash locate (buildPaths c m) [] [] rest W2") auto
    from Cons.prems(1) Some r2 have eq: "R = f # R2" "N = N2" "W' = W3"
      using moveToTrash_acc[of locate "buildPaths c m" "[f]" "[]" rest W2]
      by (auto simp: Let_def dest_def W2_def)
    from loc[OF Some] have fex: "readFile W f \<noteq> None" and fsrc: "srcTree (buildPaths c m) f" by auto
    from fex have "f \<in> set (map fst (files W))" using readFile_keys by blast
    with Cons.prems(2) fsrc have fnorm: "normalPath f"
      unfolding sourcesNormal_iff by blast
    have dtrash: "prefix (m @ [lit ''trash'']) dest"
      using trashDest_in_trash[of c m f] fsrc fnorm by (simp add: dest_def)
    have fnt: "\<not> prefix (m @ [lit ''trash'']) f"
      using srcTree_not_in_trash[OF sep] fsrc by simp
    have rf2: "\<And>p. readFile W2 p = (if p = dest then readFile W f else if p = f then None else readFile W p)"
      using fex by (auto simp: W2_def readFile_move)
    have inv2: "sourcesNormal (buildPaths c m) W2"
      unfolding sourcesNormal_iff
    proof (intro ballI impI)
      fix p assume p: "p \<in> set (map fst (files W2))" and ps: "srcTree (buildPaths c m) p"
      from p have "p = dest \<or> p \<in> set (map fst (files W))"
        using keys_move[of f dest "ensureDir (path_dirname dest) W"] by (auto simp: W2_def)
      moreover have "p \<noteq> dest"
        using srcTree_not_in_trash[OF sep, of p] ps dtrash by auto
      ultimately show "normalPath p"
        using Cons.prems(2) ps by (auto simp: sourcesNormal_iff)
    qed
    note IH = Cons.IH[OF r2 inv2]
    have R2props: "\<And>g. g \<in> set R2 \<Longrightarrow> srcTree (buildPaths c m) g \<and> normalPath g \<and> readFile W2 g \<noteq> None \<and>
        readFile W3 g = None \<and> readFile W3 (trashDest (buildPaths c m) g) = readFile W2 g"
      using IH[THEN conjunct1] by (rule bspec)
    have frame: "\<And>p. p \<notin> set R2 \<Longrightarrow> p \<notin> trashDest (buildPaths c m) ` set R2 \<Longrightarrow> readFile W3 p = readFile W2 p"
      using IH[THEN conjunct2, THEN conjunct1] by simp
    have I3: "store W3 = store W2" using IH[THEN conjunct2, THEN conjunct2, THEN conjunct1] .
    have I4: "length R2 + length N2 = length rest"
      using IH[THEN conjunct2, THEN conjunct2, THEN conjunct2] .
    have gsrc: "\<And>g. g \<in> set R2 \<Longrightarrow> srcTree (buildPaths c m) g"
      using R2props by simp
    have gnorm: "\<And>g. g \<in> set R2 \<Longrightarrow> normalPath g"
      using R2props by simp
    have gnt: "\<And>g. g \<in> set R2 \<Longrightarrow> \<not> prefix (m @ [lit ''trash'']) g"
      using srcTree_not_in_trash[OF sep gsrc] .
    have gdt: "\<And>g. g \<in> set R2 \<Longrightarrow> prefix (m @ [lit ''trash'']) (trashDest (buildPaths c m) g)"
      using trashDest_in_trash[OF gsrc gnorm] by simp
    have f_none2: "readFile W2 f = None" using rf2[of f] dtrash fnt by auto
    have gnf: "\<And>g. g \<in> set R2 \<Longrightarrow> g \<noteq> f"
    proof
      fix g assume g: "g \<in> set R2" and "g = f"
      with R2props[OF g] f_none2 show False by simp
    qed
    have f_notin: "f \<notin> set R2" using gnf by blast
    have f_notdest: "f \<notin> trashDest (buildPaths c m) ` set R2" using gdt fnt by auto
    have d_notin: "dest \<notin> set R2" using gnt dtrash by auto
    have d_notdest: "dest \<notin> trashDest (buildPaths c m) ` set R2"
    proof
      assume "dest \<in> trashDest (buildPaths c m) ` set R2"
      then obtain g where g: "g \<in> set R2" and e: "trashDest (buildPaths c m) g = dest" by auto
      have "trashDest (buildPaths c m) f = trashDest (buildPaths c m) g"
        using e unfolding dest_def by simp
      moreover have "srcTree (buildPaths c m) f" using fsrc .
      ultimately have "f = g"
        using trashDest_inj[of c m f g] fnorm gsrc[OF g] gnorm[OF g] by blast
      with gnf[OF g] show False by simp
    qed
    have headB: "readFile W3 f = None"
      using frame[OF f_notin f_notdest] f_none2 by simp
    have headC: "readFile W3 dest = readFile W f"
      using frame[OF d_notin d_notdest] rf2[of dest] by simp
    have tailA: "\<And>g. g \<in> set R2 \<Longrightarrow> readFile W2 g = readFile W g"
    proof -
      fix g assume g: "g \<in> set R2"
      have "g \<noteq> dest" using gnt[OF g] dtrash by auto
      with gnf[OF g] show "readFile W2 g = readFile W g" by (simp add: rf2)
    qed
    have c1: "\<forall>g\<in>set R. srcTree (buildPaths c m) g \<and> normalPath g \<and> readFile W g \<noteq> None \<and> readFile W' g = None \<and>
                   readFile W' (trashDest (buildPaths c m) g) = readFile W g"
    proof
      fix g assume "g \<in> set R"
      then have "g = f \<or> g \<in> set R2" using eq by auto
      then show "srcTree (buildPaths c m) g \<and> normalPath g \<and> readFile W g \<noteq> None \<and> readFile W' g = None \<and>
                   readFile W' (trashDest (buildPaths c m) g) = readFile W g"
      proof
        assume "g = f"
        then show ?thesis using eq(3) fsrc fnorm fex headB headC by (simp add: dest_def)
      next
        assume g: "g \<in> set R2"
        show ?thesis using R2props[OF g] tailA[OF g] eq(3) by simp
      qed
    qed
    have c2: "\<forall>p. p \<notin> set R \<and> p \<notin> trashDest (buildPaths c m) ` set R \<longrightarrow> readFile W' p = readFile W p"
    proof (intro allI impI)
      fix p assume p: "p \<notin> set R \<and> p \<notin> trashDest (buildPaths c m) ` set R"
      then have a: "p \<notin> set R2" and b: "p \<notin> trashDest (buildPaths c m) ` set R2" and c: "p \<noteq> f" and d: "p \<noteq> dest"
        using eq by (auto simp: dest_def)
      show "readFile W' p = readFile W p"
        using frame[OF a b] c d eq(3) by (simp add: rf2)
    qed
    have c3: "store W' = store W" using I3 eq by (simp add: W2_def)
    have c4: "length R + length N = length (sid # rest)" using I4 eq by simp
    from c1 c2 c3 c4 show ?thesis by (intro conjI)
  qed
qed

section \<open>Deleting sessions: the files and the log\<close>

lemma set_js_Set [simp]: "set (js_Set xs) = set xs"
  by (simp add: js_Set_def)

lemma distinct_js_Set [simp]: "distinct (js_Set xs)"
  by (simp add: js_Set_def)

lemma hasSessionId_js_Set [simp]: "hasSessionId (js_Set ids) obj = hasSessionId ids obj"
  by (simp add: hasSessionId_def split: option.splits json.splits)

lemma lineTargets_js_Set [simp]: "lineTargets E (js_Set ids) = lineTargets E ids"
  by (simp add: lineTargets_def fun_eq_iff split: option.splits)

lemma lineKept_js_Set [simp]: "lineKept E (js_Set ids) = lineKept E ids"
  by (simp add: lineKept_def fun_eq_iff)

lemma store_moveToTrash:
  "store (snd (snd (moveToTrash locate P rf nf ids W))) = store W"
  by (induction ids arbitrary: rf nf W) (auto simp: Let_def split: option.splits)

lemma store_rewriteHistoryExcluding:
  "store (snd (rewriteHistoryExcluding E P ids backup W)) = store W"
  by (auto simp: rewriteHistoryExcluding_def Let_def split: option.splits prod.splits)

lemma readFile_rewriteHistoryExcluding_other:
  assumes "p \<noteq> historyFile P" "p \<noteq> path_suffix (historyFile P) (lit ''.tmp'')"
          "p \<noteq> path_suffix (historyFile P) (lit ''.bak'')"
  shows "readFile (snd (rewriteHistoryExcluding E P ids backup W)) p = readFile W p"
  using assms
  by (auto simp: rewriteHistoryExcluding_def Let_def readFile_move readFile_copyFile
           split: option.splits prod.splits)

lemma path_suffix_snoc [simp]: "path_suffix (c @ [x]) s = c @ [x @ s]"
  by (simp add: path_suffix_def path_basename_def)

lemma srcTree_not_top:
  assumes "srcTree (buildPaths c m) f"
  shows "f \<noteq> c @ [x]"
  using srcTree_form[OF assms] by auto

lemma in_trash_not_top:
  assumes "separate c m" and "prefix (m @ [lit ''trash'']) p"
  shows "p \<noteq> c @ [x]"
  using separate_not_in_trash[OF assms(1), of x "c @ [x]"] assms(2) by auto

lemma delete_generic:
  assumes loc: "\<And>W sid f. locate W sid = Some f \<Longrightarrow> readFile W f \<noteq> None \<and> srcTree (buildPaths c m) f"
      and sep: "separate c m"
      and norm: "sourcesNormal (buildPaths c m) W"
      and hist: "readFile W (historyFile (buildPaths c m)) = Some content"
      and nonull: "\<not> list_ex (parsesNull E) (readlineLines False [] content)"
      and mv: "moveToTrash locate (buildPaths c m) [] [] (js_Set ids) W = (R, N, W1)"
      and rw: "rewriteHistoryExcluding E (buildPaths c m) (js_Set ids) backup W1 = (r, W2)"
  shows "r = Inr (length (filter (lineTargets E ids) (readlineLines False [] content)))"
    and "readFile W2 (historyFile (buildPaths c m)) =
           Some (concat (map (\<lambda>l. l @ [LF])
                   (filter (lineKept E ids) (readlineLines False [] content))))"
    and "\<forall>f\<in>set R. readFile W f \<noteq> None \<and> readFile W2 f = None \<and>
            readFile W2 (trashDest (buildPaths c m) f) = readFile W f \<and>
            srcTree (buildPaths c m) f \<and> normalPath f"
    and "length R + length N = length (js_Set ids)"
    and "store W2 = store W"
proof -
  note inv = moveToTrash_inv[OF loc sep mv norm]
  have Rprops: "\<And>f. f \<in> set R \<Longrightarrow> srcTree (buildPaths c m) f \<and> normalPath f \<and>
      readFile W f \<noteq> None \<and> readFile W1 f = None \<and>
      readFile W1 (trashDest (buildPaths c m) f) = readFile W f"
    using inv[THEN conjunct1] by (rule bspec)
  have frame: "\<And>p. p \<notin> set R \<Longrightarrow> p \<notin> trashDest (buildPaths c m) ` set R \<Longrightarrow>
      readFile W1 p = readFile W p"
    using inv[THEN conjunct2, THEN conjunct1] by simp
  have top_notR: "\<And>x. c @ [x] \<notin> set R"
    using Rprops srcTree_not_top by blast
  have top_notD: "\<And>x. c @ [x] \<notin> trashDest (buildPaths c m) ` set R"
  proof
    fix x assume "c @ [x] \<in> trashDest (buildPaths c m) ` set R"
    then obtain f where f: "f \<in> set R" and e: "trashDest (buildPaths c m) f = c @ [x]" by auto
    have "prefix (m @ [lit ''trash'']) (trashDest (buildPaths c m) f)"
      using trashDest_in_trash Rprops[OF f] by blast
    with in_trash_not_top[OF sep] e show False by blast
  qed
  have h1: "readFile W1 (historyFile (buildPaths c m)) = Some content"
    using frame[OF top_notR top_notD, of "lit ''history.jsonl''"] hist by simp
  show "r = Inr (length (filter (lineTargets E ids) (readlineLines False [] content)))"
    using rewriteHistoryExcluding_ok(1)[OF h1 nonull, of "js_Set ids" backup] rw by simp
  show "readFile W2 (historyFile (buildPaths c m)) =
           Some (concat (map (\<lambda>l. l @ [LF])
                   (filter (lineKept E ids) (readlineLines False [] content))))"
    using rewriteHistoryExcluding_ok(2)[OF h1 nonull, of "js_Set ids" backup] rw by simp
  have other: "\<And>p. (\<And>x. p \<noteq> c @ [x]) \<Longrightarrow> readFile W2 p = readFile W1 p"
    using readFile_rewriteHistoryExcluding_other[of _ "buildPaths c m" E "js_Set ids" backup W1] rw
    by simp
  show "\<forall>f\<in>set R. readFile W f \<noteq> None \<and> readFile W2 f = None \<and>
            readFile W2 (trashDest (buildPaths c m) f) = readFile W f \<and>
            srcTree (buildPaths c m) f \<and> normalPath f"
  proof
    fix f assume f: "f \<in> set R"
    have a: "\<And>x. f \<noteq> c @ [x]" using srcTree_not_top Rprops[OF f] by blast
    have "prefix (m @ [lit ''trash'']) (trashDest (buildPaths c m) f)"
      using trashDest_in_trash Rprops[OF f] by blast
    then have b: "\<And>x. trashDest (buildPaths c m) f \<noteq> c @ [x]"
      using in_trash_not_top[OF sep] by blast
    show "readFile W f \<noteq> None \<and> readFile W2 f = None \<and>
            readFile W2 (trashDest (buildPaths c m) f) = readFile W f \<and>
            srcTree (buildPaths c m) f \<and> normalPath f"
      using Rprops[OF f] other[OF a] other[OF b] by simp
  qed
  show "length R + length N = length (js_Set ids)"
    using inv[THEN conjunct2, THEN conjunct2, THEN conjunct2] .
  show "store W2 = store W"
    using store_rewriteHistoryExcluding[of E "buildPaths c m" "js_Set ids" backup W1]
          store_moveToTrash[of locate "buildPaths c m" "[]" "[]" "js_Set ids" W] mv rw by simp
qed

section \<open>What a move to the trash does to the search for another session\<close>

lemma find_as_filter:
  "List.find Q xs = (case filter Q xs of [] \<Rightarrow> None | x # ys \<Rightarrow> Some x)"
  by (induction xs) auto

lemma removeAll_filter: "removeAll g (filter Q xs) = filter Q (removeAll g xs)"
  by (induction xs) auto

lemma filter_sub_removeAll:
  assumes k: "filter S xs' = removeAll g (filter S xs)" and imp: "\<And>x. Q x \<Longrightarrow> S x"
  shows "filter Q xs' = removeAll g (filter Q xs)"
proof -
  have a: "\<And>ys. filter Q ys = filter Q (filter S ys)"
  proof -
    fix ys show "filter Q ys = filter Q (filter S ys)"
      using imp by (induction ys) auto
  qed
  have "filter Q xs' = filter Q (filter S xs')" by (rule a)
  also have "\<dots> = filter Q (removeAll g (filter S xs))" unfolding k ..
  also have "\<dots> = removeAll g (filter Q (filter S xs))" by (rule removeAll_filter[symmetric])
  also have "\<dots> = removeAll g (filter Q xs)" using a[of xs] by simp
  finally show ?thesis .
qed

lemma first_removeAll:
  "(case xs of [] \<Rightarrow> None | x # ys \<Rightarrow> Some x) = Some f \<Longrightarrow> f \<noteq> g \<Longrightarrow>
   (case removeAll g xs of [] \<Rightarrow> None | x # ys \<Rightarrow> Some x) = Some f"
  by (cases xs) auto

lemma first_removeAll_none:
  "(case xs of [] \<Rightarrow> None | x # ys \<Rightarrow> Some x) = None \<Longrightarrow>
   (case removeAll g xs of [] \<Rightarrow> None | x # ys \<Rightarrow> Some x) = None"
  by (cases xs) auto

lemma srcTree_base:
  "base = sessionsDir P \<or> base = archivedSessionsDir P \<Longrightarrow> strict_prefix base p \<Longrightarrow> srcTree P p"
  by (auto simp: srcTree_def)

lemma fg_removed:
  assumes k: "filter (srcTree P) (map fst (files W2)) = removeAll g (filter (srcTree P) (map fst (files W)))"
      and b: "base = sessionsDir P \<or> base = archivedSessionsDir P"
  shows "fg W2 base suf ign = removeAll g (fg W base suf ign)"
  unfolding fg_def
  by (rule filter_sub_removeAll[OF k]) (simp add: srcTree_base[OF b])

lemma findFileRecursive_removed:
  assumes k: "filter (srcTree P) (map fst (files W2)) = removeAll g (filter (srcTree P) (map fst (files W)))"
      and b: "base = sessionsDir P \<or> base = archivedSessionsDir P"
  shows "findFileRecursive W2 base sid =
           (case removeAll g (filter (\<lambda>p. strict_prefix base p \<and> length p \<le> length base + 6 \<and>
                    str_includes (path_basename p) sid \<and>
                    endsWith (path_basename p) (lit ''.jsonl'')) (map fst (files W))) of
              [] \<Rightarrow> None | x # ys \<Rightarrow> Some x)"
  unfolding findFileRecursive_def find_as_filter
  using filter_sub_removeAll[OF k, of "\<lambda>p. strict_prefix base p \<and> length p \<le> length base + 6 \<and>
                    str_includes (path_basename p) sid \<and>
                    endsWith (path_basename p) (lit ''.jsonl'')"] srcTree_base[OF b]
  by simp

lemma searchInDirectory_removed_none:
  assumes k: "filter (srcTree P) (map fst (files W2)) = removeAll g (filter (srcTree P) (map fst (files W)))"
      and b: "base = sessionsDir P \<or> base = archivedSessionsDir P"
      and n: "searchInDirectory W base sid = None"
  shows "searchInDirectory W2 base sid = None"
proof -
  from n have e: "fg W base (sid @ lit ''.jsonl'') [] = []"
    and f: "findFileRecursive W base sid = None"
    by (auto simp: searchInDirectory_def split: list.splits)
  have e2: "fg W2 base (sid @ lit ''.jsonl'') [] = []"
    unfolding fg_removed[OF k b] e by simp
  have "findFileRecursive W2 base sid = None"
    unfolding findFileRecursive_removed[OF k b]
    using f unfolding findFileRecursive_def find_as_filter
    by (rule first_removeAll_none)
  with e2 show ?thesis by (simp add: searchInDirectory_def)
qed

lemma searchInDirectory_removed_some:
  assumes k: "filter (srcTree P) (map fst (files W2)) = removeAll g (filter (srcTree P) (map fst (files W)))"
      and b: "base = sessionsDir P \<or> base = archivedSessionsDir P"
      and s: "searchInDirectory W base sid = Some f" and ne: "f \<noteq> g"
  shows "searchInDirectory W2 base sid = Some f"
proof (cases "fg W base (sid @ lit ''.jsonl'') []")
  case Nil
  with s have f: "findFileRecursive W base sid = Some f"
    by (simp add: searchInDirectory_def)
  have e2: "fg W2 base (sid @ lit ''.jsonl'') [] = []"
    unfolding fg_removed[OF k b] Nil by simp
  have "findFileRecursive W2 base sid = Some f"
    unfolding findFileRecursive_removed[OF k b]
    using f ne unfolding findFileRecursive_def find_as_filter
    by (rule first_removeAll)
  with e2 show ?thesis by (simp add: searchInDirectory_def)
next
  case (Cons x xs)
  with s have x: "x = f" by (simp add: searchInDirectory_def)
  have "fg W2 base (sid @ lit ''.jsonl'') [] = f # removeAll g xs"
    unfolding fg_removed[OF k b] Cons x using ne by simp
  then show ?thesis by (simp add: searchInDirectory_def)
qed

lemma searchInDirectory_exists:
  assumes "searchInDirectory W base sid = Some f"
  shows "pathExists W base"
proof -
  from searchInDirectory_sound[OF assms]
  have "f \<in> set (map fst (files W))" and "strict_prefix base f"
    unfolding readFile_keys by simp_all
  then show ?thesis unfolding pathExists_def list_ex_iff by auto
qed

lemma findSessionFile_removed_none:
  assumes k: "filter (srcTree P) (map fst (files W2)) = removeAll g (filter (srcTree P) (map fst (files W)))"
      and n: "findSessionFile P W sid = None"
  shows "findSessionFile P W2 sid = None"
proof -
  from n have s: "searchInDirectory W (sessionsDir P) sid = None"
    by (simp add: findSessionFile_def split: option.splits)
  have a: "searchInDirectory W (archivedSessionsDir P) sid = None"
  proof (cases "searchInDirectory W (archivedSessionsDir P) sid")
    case None
    then show ?thesis .
  next
    case (Some f)
    then have "pathExists W (archivedSessionsDir P)" by (rule searchInDirectory_exists)
    with n s Some show ?thesis by (simp add: findSessionFile_def)
  qed
  have "searchInDirectory W2 (sessionsDir P) sid = None"
    by (rule searchInDirectory_removed_none[OF k _ s]) simp
  moreover have "searchInDirectory W2 (archivedSessionsDir P) sid = None"
    by (rule searchInDirectory_removed_none[OF k _ a]) simp
  ultimately show ?thesis by (simp add: findSessionFile_def)
qed

lemma findSessionFile_removed_some:
  assumes k: "filter (srcTree P) (map fst (files W2)) = removeAll g (filter (srcTree P) (map fst (files W)))"
      and s: "findSessionFile P W sid = Some f" and ne: "f \<noteq> g"
  shows "findSessionFile P W2 sid = Some f"
proof (cases "searchInDirectory W (sessionsDir P) sid")
  case (Some x)
  with s have x: "searchInDirectory W (sessionsDir P) sid = Some f"
    by (simp add: findSessionFile_def)
  have "searchInDirectory W2 (sessionsDir P) sid = Some f"
    by (rule searchInDirectory_removed_some[OF k _ x ne]) simp
  then show ?thesis by (simp add: findSessionFile_def)
next
  case None
  with s have a: "searchInDirectory W (archivedSessionsDir P) sid = Some f"
    by (simp add: findSessionFile_def split: if_splits)
  have n2: "searchInDirectory W2 (sessionsDir P) sid = None"
    by (rule searchInDirectory_removed_none[OF k _ None]) simp
  have a2: "searchInDirectory W2 (archivedSessionsDir P) sid = Some f"
    by (rule searchInDirectory_removed_some[OF k _ a ne]) simp
  from a2 have "pathExists W2 (archivedSessionsDir P)" by (rule searchInDirectory_exists)
  with n2 a2 show ?thesis by (simp add: findSessionFile_def)
qed

lemma findSessionFile_cli_removed_none:
  assumes k: "filter (srcTree P) (map fst (files W2)) = removeAll g (filter (srcTree P) (map fst (files W)))"
      and n: "findSessionFile_cli P W sid = None"
  shows "findSessionFile_cli P W2 sid = None"
proof -
  from n have e: "fg W (sessionsDir P) (sid @ lit ''.jsonl'') [] = []"
    by (simp add: findSessionFile_cli_def split: list.splits)
  have "fg W2 (sessionsDir P) (sid @ lit ''.jsonl'') [] = []"
    using fg_removed[OF k, of "sessionsDir P"] e by simp
  then show ?thesis by (simp add: findSessionFile_cli_def)
qed

lemma findSessionFile_cli_removed_some:
  assumes k: "filter (srcTree P) (map fst (files W2)) = removeAll g (filter (srcTree P) (map fst (files W)))"
      and s: "findSessionFile_cli P W sid = Some f" and ne: "f \<noteq> g"
  shows "findSessionFile_cli P W2 sid = Some f"
proof -
  from s obtain xs where e: "fg W (sessionsDir P) (sid @ lit ''.jsonl'') [] = f # xs"
    by (auto simp: findSessionFile_cli_def split: list.splits)
  have "fg W2 (sessionsDir P) (sid @ lit ''.jsonl'') [] = f # removeAll g xs"
    using fg_removed[OF k, of "sessionsDir P"] e ne by simp
  then show ?thesis by (simp add: findSessionFile_cli_def)
qed

text \<open>The files a search finds are named for the session.\<close>

lemma suffix_append_includes: "suffix (a @ b) xs \<Longrightarrow> sublist a xs \<and> suffix b xs"
  by (auto simp: suffix_def sublist_def)

lemma fg_named:
  "p \<in> set (fg W cwd (sid @ lit ''.jsonl'') ign) \<Longrightarrow> namedFor sid p"
  using suffix_append_includes[of sid "lit ''.jsonl''" "path_basename p"]
  by (simp add: fg_def namedFor_def endsWith_def str_includes_def)

lemma findFileRecursive_named: "findFileRecursive W base sid = Some p \<Longrightarrow> namedFor sid p"
  by (auto simp: findFileRecursive_def find_Some_iff namedFor_def)

lemma searchInDirectory_named: "searchInDirectory W base sid = Some p \<Longrightarrow> namedFor sid p"
  unfolding searchInDirectory_def
  using fg_named[of p W base sid "[]"] findFileRecursive_named[of W base sid p]
  by (auto split: list.splits)

lemma findSessionFile_named: "findSessionFile P W sid = Some f \<Longrightarrow> namedFor sid f"
  unfolding findSessionFile_def
  using searchInDirectory_named[of W "sessionsDir P" sid f]
        searchInDirectory_named[of W "archivedSessionsDir P" sid f]
  by (auto split: option.splits if_splits)

lemma findSessionFile_cli_named: "findSessionFile_cli P W sid = Some f \<Longrightarrow> namedFor sid f"
  unfolding findSessionFile_cli_def
  using fg_named[of f W "sessionsDir P" sid "[]"]
  by (auto split: list.splits)

text \<open>The keys of the file table after a move.\<close>

lemma keys_move_exact:
  assumes "readFile W g = Some c"
  shows "map fst (files (move g dest W)) =
           (if dest \<in> set (removeAll g (map fst (files W))) then removeAll g (map fst (files W))
            else removeAll g (map fst (files W)) @ [dest])"
  using assms by (simp add: move_def update_keys delete_keys)

lemma srcKeys_move:
  assumes r: "readFile W g \<noteq> None" and d: "\<not> srcTree P dest"
  shows "filter (srcTree P) (map fst (files (move g dest (ensureDir dd W)))) =
           removeAll g (filter (srcTree P) (map fst (files W)))"
proof -
  from r obtain c where c: "readFile (ensureDir dd W) g = Some c" by auto
  show ?thesis
    unfolding keys_move_exact[OF c] using d by (simp add: removeAll_filter)
qed

lemma trash_step:
  assumes sep: "separate c m" and norm: "sourcesNormal (buildPaths c m) W"
      and r: "readFile W f \<noteq> None" and s: "srcTree (buildPaths c m) f"
  shows "\<not> srcTree (buildPaths c m) (trashDest (buildPaths c m) f)"
    and "sourcesNormal (buildPaths c m) (move f (trashDest (buildPaths c m) f) (ensureDir d W))"
proof -
  from r have "f \<in> set (map fst (files W))" using readFile_keys by blast
  with norm s have fnorm: "normalPath f" unfolding sourcesNormal_iff by blast
  have dtrash: "prefix (m @ [lit ''trash'']) (trashDest (buildPaths c m) f)"
    by (rule trashDest_in_trash[OF s fnorm])
  show nd: "\<not> srcTree (buildPaths c m) (trashDest (buildPaths c m) f)"
    using srcTree_not_in_trash[OF sep] dtrash by blast
  show "sourcesNormal (buildPaths c m) (move f (trashDest (buildPaths c m) f) (ensureDir d W))"
    unfolding sourcesNormal_iff
  proof (intro ballI impI)
    fix p
    assume p: "p \<in> set (map fst (files (move f (trashDest (buildPaths c m) f) (ensureDir d W))))"
       and ps: "srcTree (buildPaths c m) p"
    from p have "p = trashDest (buildPaths c m) f \<or> p \<in> set (map fst (files W))"
      using keys_move[of f "trashDest (buildPaths c m) f" "ensureDir d W"] by auto
    moreover have "p \<noteq> trashDest (buildPaths c m) f" using nd ps by auto
    ultimately show "normalPath p"
      using norm ps by (auto simp: sourcesNormal_iff)
  qed
qed

lemma moveToTrash_located:
  assumes loc: "\<And>W sid f. locate W sid = Some f \<Longrightarrow>
                  readFile W f \<noteq> None \<and> srcTree (buildPaths c m) f"
      and named: "\<And>W sid f. locate W sid = Some f \<Longrightarrow> namedFor sid f"
      and stabN: "\<And>W W2 g sid.
                  filter (srcTree (buildPaths c m)) (map fst (files W2)) =
                    removeAll g (filter (srcTree (buildPaths c m)) (map fst (files W))) \<Longrightarrow>
                  locate W sid = None \<Longrightarrow> locate W2 sid = None"
      and stabS: "\<And>W W2 g sid f.
                  filter (srcTree (buildPaths c m)) (map fst (files W2)) =
                    removeAll g (filter (srcTree (buildPaths c m)) (map fst (files W))) \<Longrightarrow>
                  locate W sid = Some f \<Longrightarrow> f \<noteq> g \<Longrightarrow> locate W2 sid = Some f"
      and sep: "separate c m"
  shows "moveToTrash locate (buildPaths c m) [] [] ids W = (R, N, W') \<Longrightarrow>
         sourcesNormal (buildPaths c m) W \<Longrightarrow>
         (\<forall>sid\<in>set ids. case locate W sid of None \<Rightarrow> sid \<in> set N | Some f \<Rightarrow> f \<in> set R) \<and>
         (\<forall>f\<in>set R. \<exists>sid\<in>set ids. namedFor sid f)"
proof (induction ids arbitrary: W R N W')
  case Nil
  then show ?case by simp
next
  case (Cons sid rest)
  show ?case
  proof (cases "locate W sid")
    case None
    obtain R2 N2 W2 where r2: "moveToTrash locate (buildPaths c m) [] [] rest W = (R2, N2, W2)"
      by (cases "moveToTrash locate (buildPaths c m) [] [] rest W") auto
    from Cons.prems(1) None r2 have eq: "R = R2" "N = sid # N2" "W' = W2"
      using moveToTrash_acc[of locate "buildPaths c m" "[]" "[sid]" rest W] by auto
    note IH = Cons.IH[OF r2 Cons.prems(2)]
    have a: "\<forall>s\<in>set (sid # rest). case locate W s of None \<Rightarrow> s \<in> set N | Some f \<Rightarrow> f \<in> set R"
    proof
      fix s assume s: "s \<in> set (sid # rest)"
      show "case locate W s of None \<Rightarrow> s \<in> set N | Some f \<Rightarrow> f \<in> set R"
      proof (cases "s = sid")
        case True
        with None eq show ?thesis by simp
      next
        case False
        with s have "s \<in> set rest" by simp
        with IH have "case locate W s of None \<Rightarrow> s \<in> set N2 | Some f \<Rightarrow> f \<in> set R2" by blast
        then show ?thesis unfolding eq by (cases "locate W s") simp_all
      qed
    qed
    have b: "\<forall>f\<in>set R. \<exists>s\<in>set (sid # rest). namedFor s f"
      using IH eq by auto
    from a b show ?thesis by blast
  next
    case (Some g)
    define dest where "dest = trashDest (buildPaths c m) g"
    define W2 where "W2 = move g dest (ensureDir (path_dirname dest) W)"
    obtain R2 N2 W3 where r2: "moveToTrash locate (buildPaths c m) [] [] rest W2 = (R2, N2, W3)"
      by (cases "moveToTrash locate (buildPaths c m) [] [] rest W2") auto
    from Cons.prems(1) Some r2 have eq: "R = g # R2" "N = N2" "W' = W3"
      using moveToTrash_acc[of locate "buildPaths c m" "[g]" "[]" rest W2]
      by (auto simp: Let_def dest_def W2_def)
    from loc[OF Some] have gex: "readFile W g \<noteq> None" and gsrc: "srcTree (buildPaths c m) g"
      by auto
    note st1 = trash_step(1)[OF sep Cons.prems(2) gex gsrc]
    have inv2: "sourcesNormal (buildPaths c m) W2"
      unfolding W2_def dest_def by (rule trash_step(2)[OF sep Cons.prems(2) gex gsrc])
    have k: "filter (srcTree (buildPaths c m)) (map fst (files W2)) =
               removeAll g (filter (srcTree (buildPaths c m)) (map fst (files W)))"
      unfolding W2_def dest_def by (rule srcKeys_move[OF gex st1])
    note IH = Cons.IH[OF r2 inv2]
    have a: "\<forall>s\<in>set (sid # rest). case locate W s of None \<Rightarrow> s \<in> set N | Some f \<Rightarrow> f \<in> set R"
    proof
      fix s assume s: "s \<in> set (sid # rest)"
      show "case locate W s of None \<Rightarrow> s \<in> set N | Some f \<Rightarrow> f \<in> set R"
      proof (cases "locate W s")
        case None
        with s Some have sr: "s \<in> set rest" by auto
        have "locate W2 s = None" by (rule stabN[OF k None])
        with IH sr have "s \<in> set N2" by fastforce
        with None eq show ?thesis by simp
      next
        case f: (Some f)
        show ?thesis
        proof (cases "f = g")
          case True
          with f eq show ?thesis by simp
        next
          case False
          with s Some f have sr: "s \<in> set rest" by auto
          have "locate W2 s = Some f" by (rule stabS[OF k f False])
          with IH sr have "f \<in> set R2" by fastforce
          with f eq show ?thesis by simp
        qed
      qed
    qed
    have b: "\<forall>f\<in>set R. \<exists>s\<in>set (sid # rest). namedFor s f"
    proof
      fix f assume "f \<in> set R"
      then have "f = g \<or> f \<in> set R2" using eq by auto
      then show "\<exists>s\<in>set (sid # rest). namedFor s f"
      proof
        assume "f = g"
        with named[OF Some] show ?thesis by auto
      next
        assume "f \<in> set R2"
        with IH show ?thesis by auto
      qed
    qed
    from a b show ?thesis by blast
  qed
qed

section \<open>Deleting sessions: the state store\<close>

lemma noEmptyRemarks_map_of:
  "noEmptyRemarks S \<Longrightarrow> map_of (remarks (state (load S))) x \<noteq> Some []"
proof
  assume a: "noEmptyRemarks S" and b: "map_of (remarks (state (load S))) x = Some []"
  from b have "(x, []) \<in> set (remarks (state (load S)))" by (rule map_of_SomeD)
  with a show False by (auto simp: noEmptyRemarks_def list_all_iff)
qed

lemma filter_same_length: "length (filter P xs) = length xs \<Longrightarrow> filter P xs = xs"
proof (induction xs)
  case Nil
  then show ?case by simp
next
  case (Cons x xs)
  have "length (filter P xs) \<le> length xs" by simp
  with Cons show ?case by (cases "P x") auto
qed

lemma unpin_state:
  "state (unpin sid S) =
     (state (load S))\<lparr>ManagerState.pinned := filter (\<lambda>i. i \<noteq> sid) (ManagerState.pinned (state (load S)))\<rparr>"
  using filter_same_length[of "\<lambda>i. i \<noteq> sid" "ManagerState.pinned (state (load S))"]
  by (auto simp: unpin_def Let_def persist_def)

lemma unpin_loaded [simp]: "loaded (unpin sid S)"
  by (simp add: unpin_def Let_def persist_def)

lemma setRemark_loaded [simp]: "loaded (setRemark sid r S)"
  by (simp add: setRemark_def Let_def persist_def)

lemma trim_Nil [simp]: "trim [] = []"
  by (simp add: trim_def)

lemma setRemark_clear_state:
  "map_of (remarks (state (load S))) sid \<noteq> Some [] \<Longrightarrow>
   state (setRemark sid [] S) =
     (state (load S))\<lparr>remarks := AList.delete sid (remarks (state (load S)))\<rparr>"
  by (simp add: setRemark_def Let_def persist_def)

lemma setRemark_clear_disk:
  "map_of (remarks (state (load S))) sid \<noteq> Some [] \<Longrightarrow>
   disk (setRemark sid [] S) = Document (state (setRemark sid [] S))"
  by (simp add: setRemark_def Let_def persist_def)

lemma noEmptyRemarks_step:
  assumes "noEmptyRemarks S"
  shows "noEmptyRemarks (setRemark sid [] (unpin sid S))"
proof -
  have l: "load (unpin sid S) = unpin sid S" by simp
  have r: "remarks (state (unpin sid S)) = remarks (state (load S))"
    by (simp add: unpin_state)
  have ne: "map_of (remarks (state (load (unpin sid S)))) sid \<noteq> Some []"
    using noEmptyRemarks_map_of[OF assms, of sid] by (simp add: r)
  have "remarks (state (setRemark sid [] (unpin sid S))) = AList.delete sid (remarks (state (load S)))"
    using setRemark_clear_state[OF ne] by (simp add: r)
  moreover have "set (AList.delete sid (remarks (state (load S)))) \<subseteq> set (remarks (state (load S)))"
    by (auto simp: AList.delete_eq)
  ultimately show ?thesis
    using assms by (auto simp: noEmptyRemarks_def list_all_iff)
qed

lemma clearState_step_state:
  assumes "noEmptyRemarks S"
  shows "state (setRemark sid [] (unpin sid S)) =
     \<lparr>ManagerState.pinned = filter (\<lambda>i. i \<noteq> sid) (ManagerState.pinned (state (load S))),
      remarks = AList.delete sid (remarks (state (load S)))\<rparr>"
    and "disk (setRemark sid [] (unpin sid S)) = Document (state (setRemark sid [] (unpin sid S)))"
proof -
  have r: "remarks (state (unpin sid S)) = remarks (state (load S))"
    by (simp add: unpin_state)
  have ne: "map_of (remarks (state (load (unpin sid S)))) sid \<noteq> Some []"
    using noEmptyRemarks_map_of[OF assms, of sid] by (simp add: r)
  show "state (setRemark sid [] (unpin sid S)) =
     \<lparr>ManagerState.pinned = filter (\<lambda>i. i \<noteq> sid) (ManagerState.pinned (state (load S))),
      remarks = AList.delete sid (remarks (state (load S)))\<rparr>"
    using setRemark_clear_state[OF ne] by (simp add: unpin_state)
  show "disk (setRemark sid [] (unpin sid S)) = Document (state (setRemark sid [] (unpin sid S)))"
    using setRemark_clear_disk[OF ne] .
qed

lemma clearState_props:
  "noEmptyRemarks S \<Longrightarrow>
   ManagerState.pinned (state (load (clearState ids S))) =
     filter (\<lambda>i. i \<notin> set ids) (ManagerState.pinned (state (load S))) \<and>
   (\<forall>x. map_of (remarks (state (load (clearState ids S)))) x =
     (if x \<in> set ids then None else map_of (remarks (state (load S))) x)) \<and>
   (ids \<noteq> [] \<longrightarrow> loaded (clearState ids S) \<and>
      disk (clearState ids S) = Document (state (clearState ids S)))"
proof (induction ids arbitrary: S)
  case Nil
  then show ?case by simp
next
  case (Cons sid rest)
  define S1 where "S1 = setRemark sid [] (unpin sid S)"
  have ne1: "noEmptyRemarks S1" using noEmptyRemarks_step[OF Cons.prems] by (simp add: S1_def)
  have l1: "load S1 = S1" by (simp add: S1_def)
  have st1: "state S1 = \<lparr>ManagerState.pinned = filter (\<lambda>i. i \<noteq> sid) (ManagerState.pinned (state (load S))),
      remarks = AList.delete sid (remarks (state (load S)))\<rparr>"
    using clearState_step_state(1)[OF Cons.prems] by (simp add: S1_def)
  have d1: "disk S1 = Document (state S1)"
    using clearState_step_state(2)[OF Cons.prems] by (simp add: S1_def)
  note IH = Cons.IH[OF ne1]
  have cs: "clearState (sid # rest) S = clearState rest S1" by (simp add: S1_def)
  have p: "ManagerState.pinned (state (load (clearState (sid # rest) S))) =
     filter (\<lambda>i. i \<notin> set (sid # rest)) (ManagerState.pinned (state (load S)))"
    unfolding cs using IH[THEN conjunct1] by (simp add: l1 st1 conj_commute)
  have r: "\<forall>x. map_of (remarks (state (load (clearState (sid # rest) S)))) x =
     (if x \<in> set (sid # rest) then None else map_of (remarks (state (load S))) x)"
    unfolding cs using IH[THEN conjunct2, THEN conjunct1] by (simp add: l1 st1 delete_conv')
  have d: "loaded (clearState (sid # rest) S) \<and>
      disk (clearState (sid # rest) S) = Document (state (clearState (sid # rest) S))"
  proof (cases "rest = []")
    case True
    then show ?thesis unfolding cs using d1 l1 by (simp add: S1_def)
  next
    case False
    then show ?thesis unfolding cs using IH[THEN conjunct2, THEN conjunct2] by simp
  qed
  from p r d show ?case by simp
qed

section \<open>Claims on deleting sessions\<close>

lemma moved_relative:
  assumes s: "srcTree (buildPaths c m) f" and n: "normalPath f"
  shows "prefix (trashDir (buildPaths c m)) (trashDest (buildPaths c m) f)"
    and "path_relative (trashDir (buildPaths c m) @ [lit ''sessions'']) (trashDest (buildPaths c m) f)
           = path_relative (sessionsDir (buildPaths c m)) f"
proof -
  from trashDest_src[OF s n] obtain t rel where
    t: "t = lit ''sessions'' \<or> t = lit ''archived_sessions''" and fe: "f = c @ t # rel"
    and de: "trashDest (buildPaths c m) f = m @ lit ''trash'' # t # rel" by blast
  have rel1: "path_relative (c @ [lit ''sessions'']) (c @ t # rel) = path_relative [lit ''sessions''] (t # rel)"
    using path_relative_append[of c "[lit ''sessions'']" "t # rel"] by simp
  have rel2: "path_relative ((m @ [lit ''trash'']) @ [lit ''sessions'']) ((m @ [lit ''trash'']) @ t # rel)
               = path_relative [lit ''sessions''] (t # rel)"
    by (rule path_relative_append)
  show "path_relative (trashDir (buildPaths c m) @ [lit ''sessions'']) (trashDest (buildPaths c m) f)
               = path_relative (sessionsDir (buildPaths c m)) f"
    using rel1 rel2 unfolding de unfolding fe by simp
  show "prefix (trashDir (buildPaths c m)) (trashDest (buildPaths c m) f)"
    unfolding de by (simp add: prefix_def)
qed

lemma readFile_store_update [simp]: "readFile (W\<lparr>store := s\<rparr>) p = readFile W p"
  by (simp add: readFile_def)

lemma delete_files:
  assumes loc: "\<And>W sid f. locate W sid = Some f \<Longrightarrow>
                  readFile W f \<noteq> None \<and> srcTree (buildPaths c m) f"
      and named: "\<And>W sid f. locate W sid = Some f \<Longrightarrow> namedFor sid f"
      and stabN: "\<And>W W2 g sid.
                  filter (srcTree (buildPaths c m)) (map fst (files W2)) =
                    removeAll g (filter (srcTree (buildPaths c m)) (map fst (files W))) \<Longrightarrow>
                  locate W sid = None \<Longrightarrow> locate W2 sid = None"
      and stabS: "\<And>W W2 g sid f.
                  filter (srcTree (buildPaths c m)) (map fst (files W2)) =
                    removeAll g (filter (srcTree (buildPaths c m)) (map fst (files W))) \<Longrightarrow>
                  locate W sid = Some f \<Longrightarrow> f \<noteq> g \<Longrightarrow> locate W2 sid = Some f"
      and sep: "separate c m"
      and norm: "sourcesNormal (buildPaths c m) W"
      and hist: "readFile W (historyFile (buildPaths c m)) = Some content"
      and nonull: "\<not> list_ex (parsesNull E) (readlineLines False [] content)"
      and mv: "moveToTrash locate (buildPaths c m) [] [] (js_Set ids) W = (R, N, W1)"
      and rw: "rewriteHistoryExcluding E (buildPaths c m) (js_Set ids) backup W1 = (r, W2)"
  shows "filesDeleted locate (buildPaths c m) ids W W2
           \<lparr>removedHistory = n, removedFiles = R, notFoundFiles = N\<rparr>"
proof -
  note g = delete_generic[of locate c m, OF loc sep norm hist nonull mv rw]
  note l = moveToTrash_located[of locate c m, OF loc named stabN stabS sep mv norm]
  have a: "\<forall>sid\<in>set ids. case locate W sid of None \<Rightarrow> sid \<in> set N | Some f \<Rightarrow> f \<in> set R"
    using l[THEN conjunct1] by simp
  have b: "\<forall>f\<in>set R. (\<exists>sid\<in>set ids. namedFor sid f) \<and> movedToTrash (buildPaths c m) W W2 f"
  proof
    fix f assume f: "f \<in> set R"
    from g(3) f have p: "readFile W f \<noteq> None" "readFile W2 f = None"
       "readFile W2 (trashDest (buildPaths c m) f) = readFile W f"
       "srcTree (buildPaths c m) f" "normalPath f" by auto
    have "\<exists>sid\<in>set ids. namedFor sid f" using l[THEN conjunct2] f by simp
    moreover have "movedToTrash (buildPaths c m) W W2 f"
      unfolding movedToTrash_def using p(1,2,3) moved_relative[OF p(4,5)] by (intro conjI)
    ultimately show "(\<exists>sid\<in>set ids. namedFor sid f) \<and> movedToTrash (buildPaths c m) W W2 f" ..
  qed
  show ?thesis
    unfolding filesDeleted_def list_all_iff list_ex_iff using a b
    by (simp cong: option.case_cong)
qed

text \<open>
  C1. Take the default layout \<open>buildPaths c m\<close> with separate homes, a world whose
  session files have normal paths, and a log none of whose lines parses to \<open>null\<close>
  (every parseable line carries a session id or at least is a value with members).
  Then \<open>deleteSessions\<close>, in the extension core and in the CLI build, returns normally;
  the log it leaves is exactly the lines of the old log that are not blank and do not
  carry a session id of the deletion set, in order, each ended by a line feed;
  \<open>removedHistory\<close> is the number of parseable lines whose session id is in the set;
  every id of the set is reported not found when \<open>findSessionFile\<close> finds no file for
  it, and otherwise the file found is in \<open>removedFiles\<close>; every file of \<open>removedFiles\<close>
  is named for an id of the set, is gone from its old place and stands, with the same
  content, below the trash directory, at the same path relative to \<open>trash/sessions\<close>
  that it had relative to the sessions directory.
\<close>

theorem deleteSessions_removes_targets:
  assumes sep: "separate c m"
      and norm: "sourcesNormal (buildPaths c m) W"
      and hist: "readFile W (historyFile (buildPaths c m)) = Some content"
      and nonull: "\<not> list_ex (parsesNull E) (readlineLines False [] content)"
  shows "(\<exists>r W'. deleteSessions E (buildPaths c m) sessionIds backupHistory W = (Inr r, W') \<and>
           readFile W' (historyFile (buildPaths c m)) =
             Some (concat (map (\<lambda>l. l @ [LF])
                     (filter (lineKept E sessionIds) (readlineLines False [] content)))) \<and>
           removedHistory r =
             length (filter (lineTargets E sessionIds) (readlineLines False [] content)) \<and>
           length (removedFiles r) + length (notFoundFiles r) = length (js_Set sessionIds) \<and>
           filesDeleted (findSessionFile (buildPaths c m)) (buildPaths c m) sessionIds W W' r)
       \<and> (\<exists>r W'. deleteSessions_cli E (buildPaths c m) sessionIds backupHistory W = (Inr r, W') \<and>
           readFile W' (historyFile (buildPaths c m)) =
             Some (concat (map (\<lambda>l. l @ [LF])
                     (filter (lineKept E sessionIds) (readlineLines False [] content)))) \<and>
           removedHistory r =
             length (filter (lineTargets E sessionIds) (readlineLines False [] content)) \<and>
           length (removedFiles r) + length (notFoundFiles r) = length (js_Set sessionIds) \<and>
           filesDeleted (findSessionFile_cli (buildPaths c m)) (buildPaths c m) sessionIds W W' r)"
proof (rule conjI)
  obtain R N W1 where mv:
    "moveToTrash (findSessionFile (buildPaths c m)) (buildPaths c m) [] [] (js_Set sessionIds) W = (R, N, W1)"
    by (cases "moveToTrash (findSessionFile (buildPaths c m)) (buildPaths c m) [] [] (js_Set sessionIds) W") auto
  obtain r0 W2 where rw:
    "rewriteHistoryExcluding E (buildPaths c m) (js_Set sessionIds) (backupHistory \<noteq> Some False) W1 = (r0, W2)"
    by (cases "rewriteHistoryExcluding E (buildPaths c m) (js_Set sessionIds) (backupHistory \<noteq> Some False) W1") auto
  have loc: "\<And>W sid f. findSessionFile (buildPaths c m) W sid = Some f \<Longrightarrow>
                  readFile W f \<noteq> None \<and> srcTree (buildPaths c m) f"
    by (rule findSessionFile_sound)
  have named: "\<And>W sid f. findSessionFile (buildPaths c m) W sid = Some f \<Longrightarrow> namedFor sid f"
    by (rule findSessionFile_named)
  have stabN: "\<And>W W2 g sid.
                  filter (srcTree (buildPaths c m)) (map fst (files W2)) =
                    removeAll g (filter (srcTree (buildPaths c m)) (map fst (files W))) \<Longrightarrow>
                  findSessionFile (buildPaths c m) W sid = None \<Longrightarrow>
                  findSessionFile (buildPaths c m) W2 sid = None"
    by (rule findSessionFile_removed_none)
  have stabS: "\<And>W W2 g sid f.
                  filter (srcTree (buildPaths c m)) (map fst (files W2)) =
                    removeAll g (filter (srcTree (buildPaths c m)) (map fst (files W))) \<Longrightarrow>
                  findSessionFile (buildPaths c m) W sid = Some f \<Longrightarrow> f \<noteq> g \<Longrightarrow>
                  findSessionFile (buildPaths c m) W2 sid = Some f"
    by (rule findSessionFile_removed_some)
  note g = delete_generic[of "findSessionFile (buildPaths c m)" c m,
             OF loc sep norm hist nonull mv rw]
  define r where "r = \<lparr>removedHistory = length (filter (lineTargets E sessionIds) (readlineLines False [] content)),
                        removedFiles = R, notFoundFiles = N\<rparr>"
  have d: "deleteSessions E (buildPaths c m) sessionIds backupHistory W = (Inr r, W2)"
    using mv rw g(1) by (simp add: deleteSessions_def r_def)
  have fd: "filesDeleted (findSessionFile (buildPaths c m)) (buildPaths c m) sessionIds W W2 r"
    unfolding r_def
    by (rule delete_files[of "findSessionFile (buildPaths c m)" c m,
              OF loc named stabN stabS sep norm hist nonull mv rw])
  have g2: "readFile W2 (historyFile (buildPaths c m)) =
             Some (concat (map (\<lambda>l. l @ [LF])
                     (filter (lineKept E sessionIds) (readlineLines False [] content))))"
    by (rule g(2)) assumption
  have "removedHistory r =
             length (filter (lineTargets E sessionIds) (readlineLines False [] content))"
    by (simp add: r_def)
  moreover have "length (removedFiles r) + length (notFoundFiles r) = length (js_Set sessionIds)"
    using g(4) by (simp add: r_def)
  ultimately show "\<exists>r W'. deleteSessions E (buildPaths c m) sessionIds backupHistory W = (Inr r, W') \<and>
           readFile W' (historyFile (buildPaths c m)) =
             Some (concat (map (\<lambda>l. l @ [LF])
                     (filter (lineKept E sessionIds) (readlineLines False [] content)))) \<and>
           removedHistory r =
             length (filter (lineTargets E sessionIds) (readlineLines False [] content)) \<and>
           length (removedFiles r) + length (notFoundFiles r) = length (js_Set sessionIds) \<and>
           filesDeleted (findSessionFile (buildPaths c m)) (buildPaths c m) sessionIds W W' r"
    using d g2 fd by blast
next
  obtain R N W1 where mv:
    "moveToTrash (findSessionFile_cli (buildPaths c m)) (buildPaths c m) [] [] (js_Set sessionIds) W = (R, N, W1)"
    by (cases "moveToTrash (findSessionFile_cli (buildPaths c m)) (buildPaths c m) [] [] (js_Set sessionIds) W") auto
  obtain r0 W2 where rw:
    "rewriteHistoryExcluding E (buildPaths c m) (js_Set sessionIds) (backupHistory \<noteq> Some False) W1 = (r0, W2)"
    by (cases "rewriteHistoryExcluding E (buildPaths c m) (js_Set sessionIds) (backupHistory \<noteq> Some False) W1") auto
  have loc: "\<And>W sid f. findSessionFile_cli (buildPaths c m) W sid = Some f \<Longrightarrow>
                  readFile W f \<noteq> None \<and> srcTree (buildPaths c m) f"
    by (rule findSessionFile_cli_sound)
  have named: "\<And>W sid f. findSessionFile_cli (buildPaths c m) W sid = Some f \<Longrightarrow> namedFor sid f"
    by (rule findSessionFile_cli_named)
  have stabN: "\<And>W W2 g sid.
                  filter (srcTree (buildPaths c m)) (map fst (files W2)) =
                    removeAll g (filter (srcTree (buildPaths c m)) (map fst (files W))) \<Longrightarrow>
                  findSessionFile_cli (buildPaths c m) W sid = None \<Longrightarrow>
                  findSessionFile_cli (buildPaths c m) W2 sid = None"
    by (rule findSessionFile_cli_removed_none)
  have stabS: "\<And>W W2 g sid f.
                  filter (srcTree (buildPaths c m)) (map fst (files W2)) =
                    removeAll g (filter (srcTree (buildPaths c m)) (map fst (files W))) \<Longrightarrow>
                  findSessionFile_cli (buildPaths c m) W sid = Some f \<Longrightarrow> f \<noteq> g \<Longrightarrow>
                  findSessionFile_cli (buildPaths c m) W2 sid = Some f"
    by (rule findSessionFile_cli_removed_some)
  note g = delete_generic[of "findSessionFile_cli (buildPaths c m)" c m,
             OF loc sep norm hist nonull mv rw]
  define r where "r = \<lparr>removedHistory = length (filter (lineTargets E sessionIds) (readlineLines False [] content)),
                        removedFiles = R, notFoundFiles = N\<rparr>"
  define W3 where "W3 = W2\<lparr>store := clearState (js_Set sessionIds) (store W2)\<rparr>"
  have d: "deleteSessions_cli E (buildPaths c m) sessionIds backupHistory W = (Inr r, W3)"
    using mv rw g(1) by (simp add: deleteSessions_cli_def r_def W3_def)
  have fd2: "filesDeleted (findSessionFile_cli (buildPaths c m)) (buildPaths c m) sessionIds W W2 r"
    unfolding r_def
    by (rule delete_files[of "findSessionFile_cli (buildPaths c m)" c m,
              OF loc named stabN stabS sep norm hist nonull mv rw])
  have fd: "filesDeleted (findSessionFile_cli (buildPaths c m)) (buildPaths c m) sessionIds W W3 r"
    using fd2 by (simp add: filesDeleted_def movedToTrash_def W3_def)
  have g2: "readFile W2 (historyFile (buildPaths c m)) =
             Some (concat (map (\<lambda>l. l @ [LF])
                     (filter (lineKept E sessionIds) (readlineLines False [] content))))"
    by (rule g(2)) assumption
  have h: "readFile W3 (historyFile (buildPaths c m)) =
             Some (concat (map (\<lambda>l. l @ [LF])
                     (filter (lineKept E sessionIds) (readlineLines False [] content))))"
    using g2 by (simp add: W3_def)
  have "removedHistory r =
             length (filter (lineTargets E sessionIds) (readlineLines False [] content))"
    by (simp add: r_def)
  moreover have "length (removedFiles r) + length (notFoundFiles r) = length (js_Set sessionIds)"
    using g(4) by (simp add: r_def)
  ultimately show "\<exists>r W'. deleteSessions_cli E (buildPaths c m) sessionIds backupHistory W = (Inr r, W') \<and>
           readFile W' (historyFile (buildPaths c m)) =
             Some (concat (map (\<lambda>l. l @ [LF])
                     (filter (lineKept E sessionIds) (readlineLines False [] content)))) \<and>
           removedHistory r =
             length (filter (lineTargets E sessionIds) (readlineLines False [] content)) \<and>
           length (removedFiles r) + length (notFoundFiles r) = length (js_Set sessionIds) \<and>
           filesDeleted (findSessionFile_cli (buildPaths c m)) (buildPaths c m) sessionIds W W' r"
    using d h fd by blast
qed

text \<open>
  The hypotheses of C1 hold in the sample installation. Deleting \<open>B\<close> and an unknown id
  \<open>Z\<close>, both builds find the transcript of \<open>B\<close> and nothing for \<open>Z\<close>, take the two
  lines of \<open>B\<close> out of the log and move that transcript.
\<close>

theorem deleteSessions_removes_targets_witness:
  "separate sampleCodexHome sampleManagerHome \<and>
   sourcesNormal (buildPaths sampleCodexHome sampleManagerHome) sampleWorld \<and>
   readFile sampleWorld (historyFile (buildPaths sampleCodexHome sampleManagerHome)) = Some sampleLog \<and>
   \<not> list_ex (parsesNull sampleEnv) (readlineLines False [] sampleLog) \<and>
   findSessionFile (buildPaths sampleCodexHome sampleManagerHome) sampleWorld (lit ''B'') =
     Some (sampleCodexHome @ [lit ''sessions'', lit ''2025'', lit ''11'', lit ''10'',
                              lit ''rollout-2025-11-10T21-20-20-B.jsonl'']) \<and>
   findSessionFile (buildPaths sampleCodexHome sampleManagerHome) sampleWorld (lit ''Z'') = None \<and>
   fst (deleteSessions sampleEnv (buildPaths sampleCodexHome sampleManagerHome)
          [lit ''B'', lit ''Z''] None sampleWorld) =
     Inr \<lparr>removedHistory = 2,
          removedFiles = [sampleCodexHome @ [lit ''sessions'', lit ''2025'', lit ''11'', lit ''10'',
                                             lit ''rollout-2025-11-10T21-20-20-B.jsonl'']],
          notFoundFiles = [lit ''Z'']\<rparr> \<and>
   (\<exists>r W'. deleteSessions sampleEnv (buildPaths sampleCodexHome sampleManagerHome)
              [lit ''B'', lit ''Z''] None sampleWorld = (Inr r, W') \<and>
      readFile W' (historyFile (buildPaths sampleCodexHome sampleManagerHome)) =
        Some (concat (map (\<lambda>l. l @ [LF])
                (filter (lineKept sampleEnv [lit ''B'', lit ''Z'']) (readlineLines False [] sampleLog)))) \<and>
      removedHistory r =
        length (filter (lineTargets sampleEnv [lit ''B'', lit ''Z'']) (readlineLines False [] sampleLog)) \<and>
      length (removedFiles r) + length (notFoundFiles r) = length (js_Set [lit ''B'', lit ''Z'']) \<and>
      filesDeleted (findSessionFile (buildPaths sampleCodexHome sampleManagerHome))
        (buildPaths sampleCodexHome sampleManagerHome) [lit ''B'', lit ''Z''] sampleWorld W' r) \<and>
   (\<exists>r W'. deleteSessions_cli sampleEnv (buildPaths sampleCodexHome sampleManagerHome)
              [lit ''B'', lit ''Z''] None sampleWorld = (Inr r, W') \<and>
      readFile W' (historyFile (buildPaths sampleCodexHome sampleManagerHome)) =
        Some (concat (map (\<lambda>l. l @ [LF])
                (filter (lineKept sampleEnv [lit ''B'', lit ''Z'']) (readlineLines False [] sampleLog)))) \<and>
      removedHistory r =
        length (filter (lineTargets sampleEnv [lit ''B'', lit ''Z'']) (readlineLines False [] sampleLog)) \<and>
      length (removedFiles r) + length (notFoundFiles r) = length (js_Set [lit ''B'', lit ''Z'']) \<and>
      filesDeleted (findSessionFile_cli (buildPaths sampleCodexHome sampleManagerHome))
        (buildPaths sampleCodexHome sampleManagerHome) [lit ''B'', lit ''Z''] sampleWorld W' r)"
proof -
  have h1: "separate sampleCodexHome sampleManagerHome" by code_simp
  have h2: "sourcesNormal (buildPaths sampleCodexHome sampleManagerHome) sampleWorld" by code_simp
  have h3: "readFile sampleWorld (historyFile (buildPaths sampleCodexHome sampleManagerHome)) = Some sampleLog"
    by code_simp
  have h4: "\<not> list_ex (parsesNull sampleEnv) (readlineLines False [] sampleLog)" by code_simp
  have f1: "findSessionFile (buildPaths sampleCodexHome sampleManagerHome) sampleWorld (lit ''B'') =
     Some (sampleCodexHome @ [lit ''sessions'', lit ''2025'', lit ''11'', lit ''10'',
                              lit ''rollout-2025-11-10T21-20-20-B.jsonl''])" by code_simp
  have f2: "findSessionFile (buildPaths sampleCodexHome sampleManagerHome) sampleWorld (lit ''Z'') = None"
    by code_simp
  have f3: "fst (deleteSessions sampleEnv (buildPaths sampleCodexHome sampleManagerHome)
          [lit ''B'', lit ''Z''] None sampleWorld) =
     Inr \<lparr>removedHistory = 2,
          removedFiles = [sampleCodexHome @ [lit ''sessions'', lit ''2025'', lit ''11'', lit ''10'',
                                             lit ''rollout-2025-11-10T21-20-20-B.jsonl'']],
          notFoundFiles = [lit ''Z'']\<rparr>" by code_simp
  note t = deleteSessions_removes_targets[OF h1 h2 h3 h4, of "[lit ''B'', lit ''Z'']" None]
  show ?thesis
    using h1 h2 h3 h4 f1 f2 f3 t[THEN conjunct1] t[THEN conjunct2] by (intro conjI)
qed




lemma deleteSessions_store:
  "store (snd (deleteSessions E P sessionIds backupHistory W)) = store W"
proof -
  obtain R N W1 where mv:
    "moveToTrash (findSessionFile P) P [] [] (js_Set sessionIds) W = (R, N, W1)"
    by (cases "moveToTrash (findSessionFile P) P [] [] (js_Set sessionIds) W") auto
  obtain r0 W2 where rw:
    "rewriteHistoryExcluding E P (js_Set sessionIds) (backupHistory \<noteq> Some False) W1 = (r0, W2)"
    by (cases "rewriteHistoryExcluding E P (js_Set sessionIds) (backupHistory \<noteq> Some False) W1") auto
  have "store W1 = store W"
    using store_moveToTrash[of "findSessionFile P" P "[]" "[]" "js_Set sessionIds" W] mv by simp
  moreover have "store W2 = store W1"
    using store_rewriteHistoryExcluding[of E P "js_Set sessionIds" "backupHistory \<noteq> Some False" W1] rw
    by simp
  ultimately show ?thesis
    using mv rw by (simp add: deleteSessions_def split: sum.splits)
qed

lemma deleteSessions_cli_store:
  assumes "deleteSessions_cli E P sessionIds backupHistory W = (Inr r, W')"
  shows "store W' = clearState (js_Set sessionIds) (store W)"
proof -
  obtain R N W1 where mv:
    "moveToTrash (findSessionFile_cli P) P [] [] (js_Set sessionIds) W = (R, N, W1)"
    by (cases "moveToTrash (findSessionFile_cli P) P [] [] (js_Set sessionIds) W") auto
  obtain r0 W2 where rw:
    "rewriteHistoryExcluding E P (js_Set sessionIds) (backupHistory \<noteq> Some False) W1 = (r0, W2)"
    by (cases "rewriteHistoryExcluding E P (js_Set sessionIds) (backupHistory \<noteq> Some False) W1") auto
  have "store W1 = store W"
    using store_moveToTrash[of "findSessionFile_cli P" P "[]" "[]" "js_Set sessionIds" W] mv by simp
  moreover have "store W2 = store W1"
    using store_rewriteHistoryExcluding[of E P "js_Set sessionIds" "backupHistory \<noteq> Some False" W1] rw
    by simp
  ultimately show ?thesis
    using mv rw assms by (auto simp add: deleteSessions_cli_def split: sum.splits)
qed

text \<open>
  C10. \<open>deleteSessions\<close> of the extension core returns the state store as it was, in
  memory and on disk, for every deletion set and also when the rewrite throws. The CLI
  build, when it returns normally and the store holds no empty remark, leaves a state
  file that is the in-memory state, in which no deleted id is pinned or has a remark;
  the other pins keep their order and the other remarks their text.
\<close>

theorem deleteSessions_state_frame:
  "store (snd (deleteSessions E P sessionIds backupHistory W)) = store W \<and>
   (\<forall>r W'. deleteSessions_cli E P sessionIds backupHistory W = (Inr r, W') \<longrightarrow>
            noEmptyRemarks (store W) \<longrightarrow>
      (\<forall>sid\<in>set sessionIds.
          disk (store W') = Document (state (store W')) \<and>
          sid \<notin> set (ManagerState.pinned (state (store W'))) \<and>
          map_of (remarks (state (store W'))) sid = None) \<and>
      ManagerState.pinned (state (load (store W'))) =
        filter (\<lambda>i. i \<notin> set sessionIds) (ManagerState.pinned (state (load (store W)))) \<and>
      (\<forall>x. x \<notin> set sessionIds \<longrightarrow>
          map_of (remarks (state (load (store W')))) x =
          map_of (remarks (state (load (store W)))) x))"
proof (intro conjI allI impI)
  show "store (snd (deleteSessions E P sessionIds backupHistory W)) = store W"
    by (rule deleteSessions_store)
next
  fix r W'
  assume d: "deleteSessions_cli E P sessionIds backupHistory W = (Inr r, W')"
     and ne: "noEmptyRemarks (store W)"
  have st: "store W' = clearState (js_Set sessionIds) (store W)"
    using deleteSessions_cli_store[OF d] .
  note cp = clearState_props[OF ne, of "js_Set sessionIds"]
  have p: "ManagerState.pinned (state (load (store W'))) =
        filter (\<lambda>i. i \<notin> set sessionIds) (ManagerState.pinned (state (load (store W))))"
    using cp[THEN conjunct1] by (simp add: st)
  have r: "\<And>x. map_of (remarks (state (load (store W')))) x =
     (if x \<in> set sessionIds then None else map_of (remarks (state (load (store W)))) x)"
    using cp[THEN conjunct2, THEN conjunct1] by (simp add: st)
  show "ManagerState.pinned (state (load (store W'))) =
        filter (\<lambda>i. i \<notin> set sessionIds) (ManagerState.pinned (state (load (store W))))"
    by (rule p)
  show "\<And>x. x \<notin> set sessionIds \<Longrightarrow> map_of (remarks (state (load (store W')))) x =
          map_of (remarks (state (load (store W)))) x"
    by (simp add: r)
  show "\<forall>sid\<in>set sessionIds.
          disk (store W') = Document (state (store W')) \<and>
          sid \<notin> set (ManagerState.pinned (state (store W'))) \<and>
          map_of (remarks (state (store W'))) sid = None"
  proof
    fix sid assume sid: "sid \<in> set sessionIds"
    then have "js_Set sessionIds \<noteq> []" using set_js_Set[of sessionIds] by fastforce
    with cp[THEN conjunct2, THEN conjunct2] have l: "loaded (store W')"
      and dk: "disk (store W') = Document (state (store W'))" by (simp_all add: st)
    from l have ld: "load (store W') = store W'" by simp
    show "disk (store W') = Document (state (store W')) \<and>
          sid \<notin> set (ManagerState.pinned (state (store W'))) \<and>
          map_of (remarks (state (store W'))) sid = None"
      using dk p r[of sid] sid by (simp add: ld)
  qed
qed

text \<open>In the sample installation with \<open>B\<close> pinned and remarked, both builds delete \<open>B\<close>.\<close>

theorem deleteSessions_state_frame_witness:
  "store (snd (deleteSessions sampleEnv (buildPaths sampleCodexHome sampleManagerHome) [lit ''B''] None
           (sampleWorld\<lparr>store := pinnedStore\<rparr>))) = pinnedStore \<and>
   noEmptyRemarks pinnedStore \<and>
   (\<exists>r W'. deleteSessions_cli sampleEnv (buildPaths sampleCodexHome sampleManagerHome) [lit ''B''] None
           (sampleWorld\<lparr>store := pinnedStore\<rparr>) = (Inr r, W') \<and>
      disk (store W') = Document \<lparr>ManagerState.pinned = [lit ''A''], remarks = [(lit ''A'', lit ''keep'')]\<rparr> \<and>
      lit ''B'' \<notin> set (ManagerState.pinned (state (store W'))) \<and>
      map_of (remarks (state (store W'))) (lit ''B'') = None)"
proof -
  let ?W = "sampleWorld\<lparr>store := pinnedStore\<rparr>"
  let ?P = "buildPaths sampleCodexHome sampleManagerHome"
  note t = deleteSessions_state_frame[of sampleEnv ?P "[lit ''B'']" None ?W]
  have ne: "noEmptyRemarks pinnedStore" by code_simp
  obtain r0 W0 where d: "deleteSessions_cli sampleEnv ?P [lit ''B''] None ?W = (r0, W0)"
    by (cases "deleteSessions_cli sampleEnv ?P [lit ''B''] None ?W") auto
  have "fst (deleteSessions_cli sampleEnv ?P [lit ''B''] None ?W) =
      Inr \<lparr>removedHistory = 2,
           removedFiles = [[lit ''home'', lit ''u'', lit ''.codex'', lit ''sessions'', lit ''2025'', lit ''11'', lit ''10'',
                             lit ''rollout-2025-11-10T21-20-20-B.jsonl'']],
           notFoundFiles = []\<rparr>" by code_simp
  with d obtain r where d': "deleteSessions_cli sampleEnv ?P [lit ''B''] None ?W = (Inr r, W0)" by auto
  have dk: "disk (store (snd (deleteSessions_cli sampleEnv ?P [lit ''B''] None ?W))) =
      Document \<lparr>ManagerState.pinned = [lit ''A''], remarks = [(lit ''A'', lit ''keep'')]\<rparr>" by code_simp
  from t d' ne have "\<forall>sid\<in>set [lit ''B''].
          disk (store W0) = Document (state (store W0)) \<and>
          sid \<notin> set (ManagerState.pinned (state (store W0))) \<and>
          map_of (remarks (state (store W0))) sid = None"
    by auto
  then have b: "lit ''B'' \<notin> set (ManagerState.pinned (state (store W0)))"
    "map_of (remarks (state (store W0))) (lit ''B'') = None" by simp_all
  have a: "store (snd (deleteSessions sampleEnv ?P [lit ''B''] None ?W)) = pinnedStore"
    using t by simp
  from dk d' have dk': "disk (store W0) = Document \<lparr>ManagerState.pinned = [lit ''A''], remarks = [(lit ''A'', lit ''keep'')]\<rparr>"
    by simp
  show ?thesis using a ne d' dk' b by blast
qed
section \<open>The query engine: merging and sorting\<close>



lemma mergeLine_fields [simp]:
  "sessionId (mergeLine rmks l sm) = sessionId sm"
  "lastTs (mergeLine rmks l sm) = max (lastTs sm) (ts l)"
  "firstTs (mergeLine rmks l sm) = min (firstTs sm) (ts l)"
  "count (mergeLine rmks l sm) = count sm + 1"
  "pinned (mergeLine rmks l sm) = pinned sm"
  by (simp_all add: mergeLine_def Let_def)

lemma newSummary_fields [simp]:
  "sessionId (newSummary ps rmks l) = session_id l"
  "lastTs (newSummary ps rmks l) = ts l"
  "firstTs (newSummary ps rmks l) = ts l"
  "count (newSummary ps rmks l) = (case turn_count l of Some n \<Rightarrow> (if n \<noteq> 0 then n else 1) | None \<Rightarrow> 1)"
  "pinned (newSummary ps rmks l) = (session_id l \<in> ps)"
  by (simp_all add: newSummary_def)

lemma mergeLine_cli_fields [simp]:
  "sessionId (mergeLine_cli rmks l sm) = sessionId sm"
  "lastTs (mergeLine_cli rmks l sm) = max (lastTs sm) (ts l)"
  "firstTs (mergeLine_cli rmks l sm) = min (firstTs sm) (ts l)"
  "count (mergeLine_cli rmks l sm) = count sm + 1"
  "pinned (mergeLine_cli rmks l sm) = pinned sm"
  by (simp_all add: mergeLine_cli_def)

lemma newSummary_cli_fields [simp]:
  "sessionId (newSummary_cli ps rmks l) = session_id l"
  "lastTs (newSummary_cli ps rmks l) = ts l"
  "firstTs (newSummary_cli ps rmks l) = ts l"
  "count (newSummary_cli ps rmks l) = 1"
  "pinned (newSummary_cli ps rmks l) = (session_id l \<in> ps)"
  by (simp_all add: newSummary_cli_def)








lemma keyed_Nil [simp]: "keyed ps []"
  by (simp add: keyed_def)





text \<open>The sort: what it holds, that it sorts, and that it is stable.\<close>

lemma set_insort_cmp [simp]: "set (insort_cmp cmp x xs) = insert x (set xs)"
  by (induction xs) auto

lemma set_js_sort [simp]: "set (js_sort cmp xs) = set xs"
  by (induction xs) (simp_all add: js_sort_def)


lemma length_insort_cmp [simp]: "length (insort_cmp cmp x xs) = Suc (length xs)"
  by (induction xs) auto

lemma length_js_sort [simp]: "length (js_sort cmp xs) = length xs"
  by (induction xs) (simp_all add: js_sort_def)












section \<open>The query engine: the list\<close>













section \<open>Claims on the query engine\<close>










end
